theory Spec2Isabelle
  imports Main
begin

section \<open>Data contracts of the asynchronous news search\<close>

text \<open>
  \<^verbatim>\<open>NewsItem\<close> (services/api.ts) and \<^verbatim>\<open>SearchTask\<close>, \<^verbatim>\<open>PaginatedSearchResult\<close>
  (services/asyncNewsService.ts).  The identifier field \<^verbatim>\<open>id\<close> is called \<open>news_id\<close>
  here, the \<^verbatim>\<open>articles\<close> and \<^verbatim>\<open>message\<close> fields of the paginated result carry the
  prefix \<open>immediate_\<close>, and optional fields (\<^verbatim>\<open>error?: string\<close>) are options.
\<close>

record NewsItem =
  news_id :: string
  title :: string
  summary :: string
  url :: string
  created_at :: string

datatype task_status =
  Started | Fetching_articles | Filtering_articles | Fetching_content
  | Generating_summaries | Completed | Error | Cancelled

record SearchTask =
  task_id :: string
  query :: string
  status :: task_status
  message :: string
  progress :: int
  started_at :: string
  articles :: "NewsItem list"
  total_processed :: "int option"
  total_found :: "int option"
  error :: "string option"

record PaginatedSearchResult =
  immediate_articles :: "NewsItem list"
  page :: int
  per_page :: int
  total_immediate :: int
  background_task_id :: "string option"
  immediate_message :: string

section \<open>The service: requests and their failures\<close>

text \<open>
  What a \<^verbatim>\<open>fetch\<close> call can come back with: the promise is rejected (no connection), or
  a response arrives with its \<^verbatim>\<open>ok\<close> flag, its \<^verbatim>\<open>statusText\<close> and a body that
  \<^verbatim>\<open>response.json()\<close> parses (\<open>Some\<close>) or fails to parse (\<open>None\<close>).
\<close>

datatype 'a http_reply =
  NetworkFailure
  | HttpReply bool string "'a option"

text \<open>
  The values thrown or used to reject a promise.  The three \<open>..Failed\<close> errors carry the
  response's \<^verbatim>\<open>statusText\<close>, \<open>TaskFailed\<close> carries \<^verbatim>\<open>task.error || task.message\<close>, and
  \<open>SearchCancelled\<close> is the error built at the \<^verbatim>\<open>cancelled\<close> branch of the poll.
\<close>

datatype js_error =
  FetchTypeError
  | JsonSyntaxError
  | StatusRequestFailed string
  | PaginatedSearchFailed string
  | CancelTaskFailed string
  | TaskFailed string
  | SearchCancelled

text \<open>
  The common shape of the service methods:
  \<^verbatim>\<open>const response = await fetch(..); if (!response.ok) throw new Error(..); return response.json()\<close>.
\<close>

definition fetch_json :: "(string \<Rightarrow> js_error) \<Rightarrow> 'a http_reply \<Rightarrow> js_error + 'a" where
  "fetch_json mkError reply =
     (case reply of
        NetworkFailure \<Rightarrow> Inl FetchTypeError
      | HttpReply ok statusText body \<Rightarrow>
          if \<not> ok then Inl (mkError statusText)
          else (case body of None \<Rightarrow> Inl JsonSyntaxError | Some v \<Rightarrow> Inr v))"

text \<open>
  Each method takes the arguments of the source (they only build the request) and the reply
  the server gives to that request.
\<close>

definition getSearchStatus :: "string \<Rightarrow> SearchTask http_reply \<Rightarrow> js_error + SearchTask" where
  "getSearchStatus taskId reply = fetch_json StatusRequestFailed reply"

definition paginatedSearch ::
  "string \<Rightarrow> int \<Rightarrow> int \<Rightarrow> PaginatedSearchResult http_reply \<Rightarrow> js_error + PaginatedSearchResult" where
  "paginatedSearch q pg perPage reply = fetch_json PaginatedSearchFailed reply"

definition cancelSearchTask :: "string \<Rightarrow> string http_reply \<Rightarrow> js_error + string" where
  "cancelSearchTask taskId reply = fetch_json CancelTaskFailed reply"

text \<open>JavaScript truthiness of an optional string, and \<^verbatim>\<open>task.error || task.message\<close>.\<close>

definition truthy :: "string option \<Rightarrow> bool" where
  "truthy v = (case v of None \<Rightarrow> False | Some s \<Rightarrow> s \<noteq> [])"

definition or_message :: "string option \<Rightarrow> string \<Rightarrow> string" where
  "or_message e m = (case e of None \<Rightarrow> m | Some s \<Rightarrow> if s \<noteq> [] then s else m)"

text \<open>\<^verbatim>\<open>background_task_id || null\<close>: the identifier when it is truthy.\<close>

definition or_null :: "string option \<Rightarrow> string option" where
  "or_null v = (if truthy v then v else None)"

section \<open>The poll loop\<close>

text \<open>
  One run of the closure \<^verbatim>\<open>poll\<close> of \<^verbatim>\<open>pollSearchStatus\<close>, from the reply to its status
  request on: the observer (when there is one) is called with the fetched task, then the
  promise is resolved or rejected, or the next run is scheduled with \<^verbatim>\<open>setTimeout\<close>.  A
  failed request rejects from the \<^verbatim>\<open>catch\<close> block, before the observer is reached.  The
  observer acts on a state of type \<open>'s\<close>; the length of the interval plays no part.
\<close>

datatype poll_step = Resolve SearchTask | Reject js_error | Schedule

definition poll ::
  "string \<Rightarrow> (SearchTask \<Rightarrow> 's \<Rightarrow> 's) option \<Rightarrow> SearchTask http_reply \<Rightarrow> 's \<Rightarrow> poll_step \<times> 's" where
  "poll taskId onProgress reply s =
     (case getSearchStatus taskId reply of
        Inl err \<Rightarrow> (Reject err, s)
      | Inr task \<Rightarrow>
          let s' = (case onProgress of None \<Rightarrow> s | Some f \<Rightarrow> f task s) in
          if status task = Completed then (Resolve task, s')
          else if status task = Error then (Reject (TaskFailed (or_message (error task) (message task))), s')
          else if status task = Cancelled then (Reject SearchCancelled, s')
          else (Schedule, s'))"

text \<open>
  \<^verbatim>\<open>pollSearchStatus\<close> against the replies the server gives to the successive status
  requests.  The result is how the promise settles (\<open>Pending\<close> while the reply to the last
  request is still awaited), the state the observer calls leave, and the replies that were
  never asked for: every reply consumed is one request issued.
\<close>

datatype poll_outcome = Resolved SearchTask | Rejected js_error | Pending

fun pollSearchStatus ::
  "string \<Rightarrow> (SearchTask \<Rightarrow> 's \<Rightarrow> 's) option \<Rightarrow> SearchTask http_reply list \<Rightarrow> 's
     \<Rightarrow> poll_outcome \<times> 's \<times> SearchTask http_reply list" where
  "pollSearchStatus taskId onProgress [] s = (Pending, s, [])"
| "pollSearchStatus taskId onProgress (reply # replies) s =
     (case poll taskId onProgress reply s of
        (Resolve task, s') \<Rightarrow> (Resolved task, s', replies)
      | (Reject err, s') \<Rightarrow> (Rejected err, s', replies)
      | (Schedule, s') \<Rightarrow> pollSearchStatus taskId onProgress replies s')"

section \<open>The result merge\<close>

text \<open>
  The updater passed to \<^verbatim>\<open>setNewsList\<close> in the final-results callback:
  \<^verbatim>\<open>const existingIds = new Set(prevList.map(item => item.id));\<close>
  \<^verbatim>\<open>const newArticles = finalTask.articles.filter(article => !existingIds.has(article.id));\<close>
  \<^verbatim>\<open>return [...prevList, ...newArticles];\<close>
\<close>

definition mergeArticles :: "NewsItem list \<Rightarrow> NewsItem list \<Rightarrow> NewsItem list" where
  "mergeArticles prevList incoming =
     (let existingIds = set (map news_id prevList);
          newArticles = filter (\<lambda>article. news_id article \<notin> existingIds) incoming
      in prevList @ newArticles)"

section \<open>The component: state, callbacks and handlers of NewsList\<close>

text \<open>
  The state variables of \<^verbatim>\<open>NewsList\<close> that the smart search reads or writes (the
  variable \<^verbatim>\<open>error\<close> is \<open>uiError\<close> here), the console, and the calls of the
  \<^verbatim>\<open>onSearchComplete\<close> prop (a parent that passes none sees nothing of \<open>reported\<close>).
\<close>

datatype console_entry =
  LogCancelledOld string
  | ErrorCancelOldFailed js_error
  | LogSmartSearchStart string
  | LogImmediateResults PaginatedSearchResult
  | LogProgress SearchTask
  | LogFinalResults SearchTask
  | ErrorBackgroundFailed js_error
  | LogSmartSearchDone PaginatedSearchResult "SearchTask option"
  | ErrorSmartSearchFailed js_error
  | ErrorCancelFailed js_error

datatype ui_error = SmartSearchFailedFor string

record NewsListState =
  newsList :: "NewsItem list"
  uiError :: "ui_error option"
  isSearching :: bool
  currentSearchTask :: "SearchTask option"
  paginatedResults :: "PaginatedSearchResult option"
  backgroundTaskId :: "string option"
  currentSearchQuery :: string
  console :: "console_entry list"
  reported :: "nat list"

text \<open>The three callbacks that \<^verbatim>\<open>handleSmartSearch\<close> passes to \<^verbatim>\<open>smartSearch\<close>.\<close>

definition onImmediateResults :: "PaginatedSearchResult \<Rightarrow> NewsListState \<Rightarrow> NewsListState" where
  "onImmediateResults immediateResults u =
     u\<lparr>console := console u @ [LogImmediateResults immediateResults],
       paginatedResults := Some immediateResults,
       newsList := immediate_articles immediateResults,
       backgroundTaskId := or_null (background_task_id immediateResults),
       reported := reported u @ [length (immediate_articles immediateResults)]\<rparr>"

definition onProgress :: "SearchTask \<Rightarrow> NewsListState \<Rightarrow> NewsListState" where
  "onProgress task u =
     u\<lparr>console := console u @ [LogProgress task], currentSearchTask := Some task\<rparr>"

definition onFinalResults :: "SearchTask \<Rightarrow> NewsListState \<Rightarrow> NewsListState" where
  "onFinalResults finalTask u =
     (let u1 = u\<lparr>console := console u @ [LogFinalResults finalTask],
                   currentSearchTask := Some finalTask\<rparr>
      in if length (articles finalTask) > 0
         then u1\<lparr>newsList := mergeArticles (newsList u1) (articles finalTask),
                 reported := reported u1 @ [length (articles finalTask)]\<rparr>
         else u1)"

text \<open>
  The stretches of \<^verbatim>\<open>handleSmartSearch\<close> between two suspension points: from
  \<^verbatim>\<open>setIsSearching(true)\<close> to the request of \<^verbatim>\<open>paginatedSearch\<close>; the normal end
  (the log of the result, then \<^verbatim>\<open>finally\<close>); and the \<^verbatim>\<open>catch\<close> block with \<^verbatim>\<open>finally\<close>.
\<close>

definition startSmartSearch :: "string \<Rightarrow> NewsListState \<Rightarrow> NewsListState" where
  "startSmartSearch q u =
     u\<lparr>isSearching := True, uiError := None, currentSearchTask := None,
       paginatedResults := None, backgroundTaskId := None, newsList := [],
       currentSearchQuery := q, console := console u @ [LogSmartSearchStart q]\<rparr>"

definition finishSmartSearch ::
  "PaginatedSearchResult \<Rightarrow> SearchTask option \<Rightarrow> NewsListState \<Rightarrow> NewsListState" where
  "finishSmartSearch immediateResults finalResults u =
     u\<lparr>console := console u @ [LogSmartSearchDone immediateResults finalResults],
       isSearching := False\<rparr>"

definition failSmartSearch :: "string \<Rightarrow> js_error \<Rightarrow> NewsListState \<Rightarrow> NewsListState" where
  "failSmartSearch q err u =
     u\<lparr>console := console u @ [ErrorSmartSearchFailed err],
       uiError := Some (SmartSearchFailedFor q), isSearching := False\<rparr>"

subsection \<open>Suspended invocations\<close>

text \<open>
  An invocation of \<^verbatim>\<open>handleSmartSearch\<close> or \<^verbatim>\<open>handleCancelSearch\<close> is suspended at an
  \<^verbatim>\<open>await\<close> or at the timer of the poll, with the local variables it holds there: at the
  cancellation of the previous task (query, old task id), at \<^verbatim>\<open>paginatedSearch\<close>
  (query), at \<^verbatim>\<open>getSearchStatus\<close> or at \<^verbatim>\<open>setTimeout\<close> inside the poll (query, immediate
  results, task id), at the cancellation asked for by the user (task id).  Each invocation
  counts the status requests it has issued and the calls of its progress observer.
\<close>

datatype pending =
  AwaitCancelOld string string
  | AwaitPaginated string
  | AwaitStatus string PaginatedSearchResult string
  | AwaitTimer string PaginatedSearchResult string
  | AwaitCancel string
  | Done

record invocation =
  pc :: pending
  fetches :: nat
  observed :: nat

record world =
  ui :: NewsListState
  invs :: "invocation list"

definition invoke :: "pending \<Rightarrow> invocation" where
  "invoke p = \<lparr>pc = p, fetches = 0, observed = 0\<rparr>"

text \<open>The observer with its call counter.\<close>

definition counted :: "(SearchTask \<Rightarrow> 'u \<Rightarrow> 'u) \<Rightarrow> SearchTask \<Rightarrow> 'u \<times> nat \<Rightarrow> 'u \<times> nat" where
  "counted f task s = (f task (fst s), Suc (snd s))"

text \<open>
  \<^verbatim>\<open>handleSmartSearch(query)\<close> up to its first \<^verbatim>\<open>await\<close>: the cancellation of a task
  whose id is still in \<^verbatim>\<open>backgroundTaskId\<close>, or else \<^verbatim>\<open>paginatedSearch\<close>.
\<close>

definition handleSmartSearch :: "string \<Rightarrow> world \<Rightarrow> world" where
  "handleSmartSearch q w =
     (case or_null (backgroundTaskId (ui w)) of
        Some oldId \<Rightarrow> w\<lparr>invs := invs w @ [invoke (AwaitCancelOld q oldId)]\<rparr>
      | None \<Rightarrow> \<lparr>ui = startSmartSearch q (ui w), invs = invs w @ [invoke (AwaitPaginated q)]\<rparr>)"

definition handleCancelSearch :: "world \<Rightarrow> world" where
  "handleCancelSearch w =
     (case or_null (backgroundTaskId (ui w)) of
        Some taskId \<Rightarrow> w\<lparr>invs := invs w @ [invoke (AwaitCancel taskId)]\<rparr>
      | None \<Rightarrow> w)"

text \<open>
  \<^verbatim>\<open>String.prototype.trim\<close>, on strings held as UTF-8 bytes.  The white space and line
  terminator code points of ECMAScript in their UTF-8 encodings: U+0009 to U+000D, U+0020,
  U+00A0, U+1680, U+2000 to U+200A, U+2028, U+2029, U+202F, U+205F, U+3000 and U+FEFF.
\<close>

definition white_space :: "string list" where
  "white_space =
     [[CHR 0x09], [CHR 0x0A], [CHR 0x0B], [CHR 0x0C], [CHR 0x0D], [CHR 0x20],
      [CHR 0xC2, CHR 0xA0], [CHR 0xE1, CHR 0x9A, CHR 0x80],
      [CHR 0xE2, CHR 0x80, CHR 0x80], [CHR 0xE2, CHR 0x80, CHR 0x81],
      [CHR 0xE2, CHR 0x80, CHR 0x82], [CHR 0xE2, CHR 0x80, CHR 0x83],
      [CHR 0xE2, CHR 0x80, CHR 0x84], [CHR 0xE2, CHR 0x80, CHR 0x85],
      [CHR 0xE2, CHR 0x80, CHR 0x86], [CHR 0xE2, CHR 0x80, CHR 0x87],
      [CHR 0xE2, CHR 0x80, CHR 0x88], [CHR 0xE2, CHR 0x80, CHR 0x89],
      [CHR 0xE2, CHR 0x80, CHR 0x8A], [CHR 0xE2, CHR 0x80, CHR 0xA8],
      [CHR 0xE2, CHR 0x80, CHR 0xA9], [CHR 0xE2, CHR 0x80, CHR 0xAF],
      [CHR 0xE2, CHR 0x81, CHR 0x9F], [CHR 0xE3, CHR 0x80, CHR 0x80],
      [CHR 0xEF, CHR 0xBB, CHR 0xBF]]"

text \<open>Removes from the front of \<open>s\<close> every leading occurrence of one of the given byte sequences.\<close>

function strip :: "string list \<Rightarrow> string \<Rightarrow> string" where
  "strip ps s =
     (case find (\<lambda>p. p \<noteq> [] \<and> take (length p) s = p) ps of
        None \<Rightarrow> s
      | Some p \<Rightarrow> strip ps (drop (length p) s))"
  by pat_completeness auto
termination
proof (relation "measure (\<lambda>(ps, s). length s)")
  show "wf (measure (\<lambda>(ps, s). length s))"
    by simp
next
  fix ps :: "string list" and s p :: string
  assume "find (\<lambda>p. p \<noteq> [] \<and> take (length p) s = p) ps = Some p"
  then have "p \<noteq> []" and "take (length p) s = p"
    by (auto simp: find_Some_iff)
  then have "0 < length p" and "s \<noteq> []"
    by auto
  then show "((ps, drop (length p) s), (ps, s)) \<in> measure (\<lambda>(ps, s). length s)"
    by simp
qed

declare strip.simps [simp del]

definition trim :: "string \<Rightarrow> string" where
  "trim s = rev (strip (map rev white_space) (rev (strip white_space s)))"

text \<open>
  \<^verbatim>\<open>handleSubmit\<close> of \<^verbatim>\<open>SmartSearchBar\<close> in smart mode, with the text of the input
  field; its \<^verbatim>\<open>loading\<close> prop is \<^verbatim>\<open>isSearching\<close>.
\<close>

definition handleSubmit :: "string \<Rightarrow> world \<Rightarrow> world" where
  "handleSubmit q w =
     (if trim q = [] \<or> isSearching (ui w) then w else handleSmartSearch (trim q) w)"

subsection \<open>Resuming an invocation\<close>

text \<open>What an invocation does when the reply to its cancellation request arrives.\<close>

definition afterCancel ::
  "string http_reply \<Rightarrow> invocation \<Rightarrow> NewsListState \<Rightarrow> invocation \<times> NewsListState" where
  "afterCancel reply v u =
     (case pc v of
        AwaitCancelOld q oldId \<Rightarrow>
          (case cancelSearchTask oldId reply of
             Inr _ \<Rightarrow> (v\<lparr>pc := AwaitPaginated q\<rparr>,
                       startSmartSearch q (u\<lparr>console := console u @ [LogCancelledOld oldId]\<rparr>))
           | Inl err \<Rightarrow> (v\<lparr>pc := AwaitPaginated q\<rparr>,
                         startSmartSearch q (u\<lparr>console := console u @ [ErrorCancelOldFailed err]\<rparr>)))
      | AwaitCancel taskId \<Rightarrow>
          (case cancelSearchTask taskId reply of
             Inr _ \<Rightarrow> (v\<lparr>pc := Done\<rparr>, u\<lparr>currentSearchTask := None, backgroundTaskId := None\<rparr>)
           | Inl err \<Rightarrow> (v\<lparr>pc := Done\<rparr>, u\<lparr>console := console u @ [ErrorCancelFailed err]\<rparr>))
      | _ \<Rightarrow> (v, u))"

text \<open>
  \<^verbatim>\<open>smartSearch\<close> after \<^verbatim>\<open>paginatedSearch(query, 1, 8)\<close>: a failure is thrown to the
  \<^verbatim>\<open>catch\<close> of \<^verbatim>\<open>handleSmartSearch\<close>; otherwise the immediate callback runs, and with a
  background task id the poll issues its first status request.
\<close>

definition afterPaginated ::
  "PaginatedSearchResult http_reply \<Rightarrow> invocation \<Rightarrow> NewsListState \<Rightarrow> invocation \<times> NewsListState" where
  "afterPaginated reply v u =
     (case pc v of
        AwaitPaginated q \<Rightarrow>
          (case paginatedSearch q 1 8 reply of
             Inl err \<Rightarrow> (v\<lparr>pc := Done\<rparr>, failSmartSearch q err u)
           | Inr immediateResults \<Rightarrow>
               let u1 = onImmediateResults immediateResults u in
               (case or_null (background_task_id immediateResults) of
                  Some taskId \<Rightarrow>
                    (v\<lparr>pc := AwaitStatus q immediateResults taskId, fetches := Suc (fetches v)\<rparr>, u1)
                | None \<Rightarrow> (v\<lparr>pc := Done\<rparr>, finishSmartSearch immediateResults None u1)))
      | _ \<Rightarrow> (v, u))"

text \<open>
  The reply to a status request: one run of \<open>poll\<close> with the progress callback, then the
  rest of \<^verbatim>\<open>smartSearch\<close> when the promise settles (the final callback, or the \<^verbatim>\<open>catch\<close>
  that logs the failure and returns the immediate results alone).
\<close>

definition afterStatus ::
  "SearchTask http_reply \<Rightarrow> invocation \<Rightarrow> NewsListState \<Rightarrow> invocation \<times> NewsListState" where
  "afterStatus reply v u =
     (case pc v of
        AwaitStatus q immediateResults taskId \<Rightarrow>
          (case poll taskId (Some (counted onProgress)) reply (u, observed v) of
             (Schedule, s) \<Rightarrow>
               (v\<lparr>pc := AwaitTimer q immediateResults taskId, observed := snd s\<rparr>, fst s)
           | (Resolve finalResults, s) \<Rightarrow>
               (v\<lparr>pc := Done, observed := snd s\<rparr>,
                finishSmartSearch immediateResults (Some finalResults)
                  (onFinalResults finalResults (fst s)))
           | (Reject err, s) \<Rightarrow>
               (v\<lparr>pc := Done, observed := snd s\<rparr>,
                finishSmartSearch immediateResults None
                  ((fst s)\<lparr>console := console (fst s) @ [ErrorBackgroundFailed err]\<rparr>)))
      | _ \<Rightarrow> (v, u))"

text \<open>The timer set by \<^verbatim>\<open>setTimeout(poll, pollInterval)\<close> fires: the next status request.\<close>

definition afterTimer :: "invocation \<Rightarrow> NewsListState \<Rightarrow> invocation \<times> NewsListState" where
  "afterTimer v u =
     (case pc v of
        AwaitTimer q immediateResults taskId \<Rightarrow>
          (v\<lparr>pc := AwaitStatus q immediateResults taskId, fetches := Suc (fetches v)\<rparr>, u)
      | _ \<Rightarrow> (v, u))"

subsection \<open>The event loop\<close>

text \<open>
  Callbacks run one at a time.  An event is a form submission, a click on the cancel button
  of the progress display, the reply to the request an invocation is waiting for, or its
  timer.  An event addressed to an invocation that is not waiting for it changes nothing.
  The render function returns the error view alone while \<^verbatim>\<open>error\<close> is set, and shows the
  progress display only while \<^verbatim>\<open>currentSearchTask\<close> is set; \<^verbatim>\<open>SearchProgress\<close> renders its
  cancel button only while the status of that task is none of \<^verbatim>\<open>completed\<close>, \<^verbatim>\<open>error\<close>
  and \<^verbatim>\<open>cancelled\<close>.  A submission or a click on a part that is not rendered cannot happen.
\<close>

definition cancelButtonShown :: "NewsListState \<Rightarrow> bool" where
  "cancelButtonShown u =
     (uiError u = None \<and>
      (case currentSearchTask u of
         None \<Rightarrow> False
       | Some task \<Rightarrow>
           status task \<noteq> Completed \<and> status task \<noteq> Error \<and> status task \<noteq> Cancelled))"

datatype event =
  Submit string
  | CancelClicked
  | CancelReply nat "string http_reply"
  | PaginatedReply nat "PaginatedSearchResult http_reply"
  | StatusReply nat "SearchTask http_reply"
  | TimerFired nat

definition resume ::
  "nat \<Rightarrow> (invocation \<Rightarrow> NewsListState \<Rightarrow> invocation \<times> NewsListState) \<Rightarrow> world \<Rightarrow> world" where
  "resume i k w =
     (if i < length (invs w)
      then (case k (invs w ! i) (ui w) of (v, u) \<Rightarrow> \<lparr>ui = u, invs = (invs w)[i := v]\<rparr>)
      else w)"

fun react :: "event \<Rightarrow> world \<Rightarrow> world" where
  "react (Submit q) w = (if uiError (ui w) = None then handleSubmit q w else w)"
| "react CancelClicked w = (if cancelButtonShown (ui w) then handleCancelSearch w else w)"
| "react (CancelReply i reply) w = resume i (afterCancel reply) w"
| "react (PaginatedReply i reply) w = resume i (afterPaginated reply) w"
| "react (StatusReply i reply) w = resume i (afterStatus reply) w"
| "react (TimerFired i) w = resume i afterTimer w"

fun run :: "event list \<Rightarrow> world \<Rightarrow> world" where
  "run [] w = w"
| "run (e # es) w = run es (react e w)"

text \<open>
  The component once mounted and its first \<^verbatim>\<open>loadNews\<close> has delivered \<open>data\<close> and
  reported their number.
\<close>

definition mounted :: "NewsItem list \<Rightarrow> world" where
  "mounted data =
     \<lparr>ui = \<lparr>newsList = data, uiError = None, isSearching = False, currentSearchTask = None,
            paginatedResults = None, backgroundTaskId = None, currentSearchQuery = [],
            console = [], reported = [length data]\<rparr>,
      invs = []\<rparr>"

section \<open>Notions used to state the properties\<close>

text \<open>The terminal statuses, and a status reply that keeps the poll going.\<close>

definition terminal :: "task_status \<Rightarrow> bool" where
  "terminal st = (st = Completed \<or> st = Error \<or> st = Cancelled)"

definition in_progress :: "string \<Rightarrow> SearchTask http_reply \<Rightarrow> bool" where
  "in_progress taskId reply =
     (case getSearchStatus taskId reply of Inl err \<Rightarrow> False | Inr task \<Rightarrow> \<not> terminal (status task))"

text \<open>
  The events of a poll of invocation \<open>i\<close> that sees the given replies one after the other,
  its timer firing after each.
\<close>

definition ticks :: "nat \<Rightarrow> SearchTask http_reply list \<Rightarrow> event list" where
  "ticks i replies = concat (map (\<lambda>r. [StatusReply i r, TimerFired i]) replies)"

text \<open>
  Rounds of the poll of invocation \<open>i\<close>: in each round some events happen, the status reply
  arrives, further events happen, and the timer of the poll fires.
\<close>

fun rounds :: "nat \<Rightarrow> (event list \<times> SearchTask http_reply \<times> event list) list \<Rightarrow> event list" where
  "rounds i [] = []"
| "rounds i ((es, reply, fs) # rest) = es @ StatusReply i reply # fs @ TimerFired i # rounds i rest"

text \<open>The invocation that an event resumes, if any.\<close>

fun addressee :: "event \<Rightarrow> nat option" where
  "addressee (Submit q) = None"
| "addressee CancelClicked = None"
| "addressee (CancelReply i reply) = Some i"
| "addressee (PaginatedReply i reply) = Some i"
| "addressee (StatusReply i reply) = Some i"
| "addressee (TimerFired i) = Some i"

subsection \<open>Sample data\<close>

definition article :: "string \<Rightarrow> string \<Rightarrow> NewsItem" where
  "article i s = \<lparr>news_id = i, title = [], summary = s, url = [], created_at = []\<rparr>"

definition report :: "string \<Rightarrow> task_status \<Rightarrow> int \<Rightarrow> NewsItem list \<Rightarrow> SearchTask" where
  "report t st p as =
     \<lparr>task_id = t, query = [], status = st, message = ''msg'', progress = p, started_at = [],
      articles = as, total_processed = None, total_found = None, error = None\<rparr>"

definition first_page :: "NewsItem list \<Rightarrow> string option \<Rightarrow> PaginatedSearchResult" where
  "first_page as b =
     \<lparr>immediate_articles = as, page = 1, per_page = 8, total_immediate = int (length as),
      background_task_id = b, immediate_message = []\<rparr>"

definition ok :: "'a \<Rightarrow> 'a http_reply" where
  "ok v = HttpReply True ''OK'' (Some v)"

definition not_found :: "'a http_reply" where
  "not_found = HttpReply False ''NOT FOUND'' None"

text \<open>A failed task, with the given \<^verbatim>\<open>error\<close> field and the message \<open>msg\<close>.\<close>

definition failed_report :: "string option \<Rightarrow> SearchTask" where
  "failed_report e = (report ''T1'' Error 80 [])\<lparr>error := e\<rparr>"

text \<open>
  The scenario of the specification: the query is submitted, the immediate wave returns
  \<open>[A, B]\<close> with task \<open>T1\<close>, the poll sees \<^verbatim>\<open>fetching_articles\<close> at 20 percent and then
  \<^verbatim>\<open>completed\<close> with \<open>[B, C]\<close> (\<open>B\<close> with a newer summary).
\<close>

definition taiwan :: string where
  "taiwan = [CHR 0xE5, CHR 0x8F, CHR 0xB0, CHR 0xE7, CHR 0x81, CHR 0xA3]"

definition page_AB :: PaginatedSearchResult where
  "page_AB = first_page [article ''A'' [], article ''B'' []] (Some ''T1'')"

definition done_BC :: SearchTask where
  "done_BC = report ''T1'' Completed 100 [article ''B'' ''new'', article ''C'' []]"

definition scenario_start :: "event list" where
  "scenario_start =
     [Submit taiwan,
      PaginatedReply 0 (ok page_AB),
      StatusReply 0 (ok (report ''T1'' Fetching_articles 20 [])),
      TimerFired 0]"

definition scenario :: "event list" where
  "scenario = scenario_start @ [StatusReply 0 (ok done_BC)]"

text \<open>
  A first search runs to its end and leaves its task id in \<^verbatim>\<open>backgroundTaskId\<close>.
\<close>

definition finished_first :: "event list" where
  "finished_first =
     [Submit ''q1'',
      PaginatedReply 0 (ok (first_page [article ''A'' []] (Some ''T1''))),
      StatusReply 0 (ok (report ''T1'' Completed 100 []))]"

text \<open>
  The form is then submitted twice before the cancellation of that task has answered.
  Both invocations go on: \<open>q2\<close> with task \<open>T2\<close>, then \<open>q3\<close> with task \<open>T3\<close>, whose
  immediate results are the ones displayed.  The poll of \<open>T2\<close> ends first, and the end of
  that invocation sets \<^verbatim>\<open>isSearching\<close> to false while the poll of \<open>T3\<close> is still running.
\<close>

definition overlapping :: "event list" where
  "overlapping =
     finished_first @
     [Submit ''q2'',
      Submit ''q3'',
      CancelReply 1 not_found,
      PaginatedReply 1 (ok (first_page [article ''B'' []] (Some ''T2''))),
      CancelReply 2 not_found,
      PaginatedReply 2 (ok (first_page [article ''C'' []] (Some ''T3''))),
      StatusReply 1 (ok (report ''T2'' Completed 100 []))]"

text \<open>
  A new query is submitted at that moment; the request to cancel \<open>T3\<close> is lost, and the
  immediate wave of the new query arrives, with task \<open>T4\<close>.
\<close>

definition superseding :: "event list" where
  "superseding =
     overlapping @
     [Submit ''q4'',
      CancelReply 3 NetworkFailure,
      PaginatedReply 3 (ok (first_page [article ''D'' []] (Some ''T4'')))]"

text \<open>
  Three submissions in rapid succession after a first search has ended: each invocation
  waits for the cancellation of \<open>T1\<close>, then gets its own background task.
\<close>

definition rapid :: "event list" where
  "rapid =
     finished_first @
     [Submit ''q2'', Submit ''q3'', Submit ''q4'',
      CancelReply 1 (ok ''cancelled''), CancelReply 2 (ok ''cancelled''), CancelReply 3 (ok ''cancelled''),
      PaginatedReply 1 (ok (first_page [article ''B'' []] (Some ''T2''))),
      PaginatedReply 2 (ok (first_page [article ''C'' []] (Some ''T3''))),
      PaginatedReply 3 (ok (first_page [article ''D'' []] (Some ''T4'')))]"

text \<open>A search whose poll has reported progress, and a click on the cancel button.\<close>

definition cancelling :: "event list" where
  "cancelling =
     [Submit ''q1'',
      PaginatedReply 0 (ok (first_page [article ''A'' []] (Some ''T1''))),
      StatusReply 0 (ok (report ''T1'' Fetching_articles 20 [])),
      CancelClicked]"

text \<open>An immediate wave of five articles with a background task.\<close>

definition page_five :: PaginatedSearchResult where
  "page_five = first_page (map (\<lambda>i. article i []) [''1'', ''2'', ''3'', ''4'', ''5'']) (Some ''T1'')"

section \<open>Evaluation and basic facts\<close>

lemmas handler_defs =
  handleSubmit_def handleSmartSearch_def handleCancelSearch_def resume_def
  afterCancel_def afterPaginated_def afterStatus_def afterTimer_def

lemmas model_defs =
  handler_defs mounted_def trim_def white_space_def strip.simps cancelButtonShown_def or_null_def truthy_def or_message_def
  startSmartSearch_def finishSmartSearch_def failSmartSearch_def invoke_def
  paginatedSearch_def cancelSearchTask_def getSearchStatus_def fetch_json_def
  poll_def counted_def onProgress_def onImmediateResults_def onFinalResults_def
  mergeArticles_def terminal_def in_progress_def Let_def

lemmas sample_defs =
  article_def report_def first_page_def ok_def not_found_def failed_report_def
  taiwan_def page_AB_def done_BC_def scenario_start_def scenario_def finished_first_def
  overlapping_def superseding_def rapid_def cancelling_def page_five_def

lemma mergeArticles_eq:
  "mergeArticles cur inc = cur @ filter (\<lambda>a. news_id a \<notin> news_id ` set cur) inc"
  by (simp add: mergeArticles_def)

section \<open>The result merge: order, deduplication, idempotence\<close>

text \<open>
  C3.  The merge returns the displayed sequence unchanged, followed by exactly the incoming
  items whose identifier does not occur in it, in their order of arrival; the identifier
  set is built once, from the displayed sequence.  The final-results callback changes the
  displayed list in exactly this way (an empty batch leaves it as it is).  In particular
  \<open>[A, B]\<close> merged with \<open>[B', C]\<close>, where \<open>B'\<close> carries the identifier of \<open>B\<close> and \<open>C\<close> a new
  one, is \<open>[A, B, C]\<close>.
\<close>

theorem merge_appends_unseen:
  "mergeArticles cur inc = cur @ filter (\<lambda>a. news_id a \<notin> news_id ` set cur) inc
   \<and> newsList (onFinalResults finalTask u)
       = newsList u @ filter (\<lambda>a. news_id a \<notin> news_id ` set (newsList u)) (articles finalTask)
   \<and> (news_id B' = news_id B \<and> news_id C \<noteq> news_id A \<and> news_id C \<noteq> news_id B
        \<longrightarrow> mergeArticles [A, B] [B', C] = [A, B, C])"
  by (auto simp: mergeArticles_eq onFinalResults_def Let_def)

theorem merge_appends_unseen_witness:
  "news_id (article ''B'' ''new'') = news_id (article ''B'' [])
   \<and> news_id (article ''C'' []) \<noteq> news_id (article ''A'' [])
   \<and> news_id (article ''C'' []) \<noteq> news_id (article ''B'' [])
   \<and> mergeArticles [article ''A'' [], article ''B'' []] [article ''B'' ''new'', article ''C'' []]
       = [article ''A'' [], article ''B'' [], article ''C'' []]"
  using merge_appends_unseen [where A = "article ''A'' []" and B = "article ''B'' []"
      and B' = "article ''B'' ''new''" and C = "article ''C'' []"]
  by (simp add: article_def)

text \<open>
  The scenario of the specification, run through the component: the displayed list ends
  as \<open>[A, B, C]\<close>, with the \<open>B\<close> of the immediate wave.
\<close>

lemma scenario_displays_A_B_C:
  "newsList (ui (run scenario (mounted []))) = [article ''A'' [], article ''B'' [], article ''C'' []]"
  by (simp add: model_defs sample_defs)

text \<open>
  C4.  Merging the same batch a second time changes nothing:
  \<open>merge (merge cur inc) inc = merge cur inc\<close>, for all lists.
\<close>

theorem merge_idempotent:
  "mergeArticles (mergeArticles cur inc) inc = mergeArticles cur inc"
proof -
  have "filter (\<lambda>a. news_id a \<notin> news_id ` set (mergeArticles cur inc)) inc = []"
    by (auto simp: mergeArticles_eq filter_empty_conv)
  then show ?thesis
    by (simp add: mergeArticles_eq [of "mergeArticles cur inc" inc])
qed

theorem merge_idempotent_witness:
  "mergeArticles (mergeArticles [article ''A'' []] [article ''C'' ''x'', article ''C'' ''y'', article ''A'' ''z''])
       [article ''C'' ''x'', article ''C'' ''y'', article ''A'' ''z'']
     = mergeArticles [article ''A'' []] [article ''C'' ''x'', article ''C'' ''y'', article ''A'' ''z'']"
  by (rule merge_idempotent)

text \<open>
  C10.  The merge does not deduplicate inside the incoming batch: for an identifier that
  does not occur in the displayed list, the merged list holds every incoming item with
  that identifier, as often and in the order in which the batch has them.
\<close>

theorem merge_keeps_batch_duplicates:
  assumes "i \<notin> news_id ` set cur"
  shows "filter (\<lambda>a. news_id a = i) (mergeArticles cur inc) = filter (\<lambda>a. news_id a = i) inc"
proof -
  have "filter (\<lambda>a. news_id a = i) cur = []"
    using assms by (auto simp: filter_empty_conv)
  moreover have "filter (\<lambda>a. news_id a = i) (filter (\<lambda>a. news_id a \<notin> news_id ` set cur) inc)
      = filter (\<lambda>a. news_id a = i) inc"
    using assms by (auto intro: filter_cong)
  ultimately show ?thesis
    by (simp add: mergeArticles_eq)
qed

theorem merge_keeps_batch_duplicates_witness:
  "''C'' \<notin> news_id ` set [article ''A'' []]
   \<and> filter (\<lambda>a. news_id a = ''C'')
        (mergeArticles [article ''A'' []] [article ''C'' ''x'', article ''A'' ''z'', article ''C'' ''y''])
       = [article ''C'' ''x'', article ''C'' ''y'']
   \<and> mergeArticles [article ''A'' []] [article ''C'' ''x'', article ''A'' ''z'', article ''C'' ''y'']
       = [article ''A'' [], article ''C'' ''x'', article ''C'' ''y'']"
proof -
  have h: "''C'' \<notin> news_id ` set [article ''A'' []]"
    by (simp add: article_def)
  show ?thesis
    using h merge_keeps_batch_duplicates [OF h,
        of "[article ''C'' ''x'', article ''A'' ''z'', article ''C'' ''y'']"]
    by (simp add: article_def mergeArticles_def)
qed

section \<open>The poll: how it settles and when it stops\<close>

lemma poll_in_progress:
  assumes "in_progress taskId reply"
  shows "\<exists>s'. poll taskId obs reply s = (Schedule, s')"
  using assms
  by (auto simp: in_progress_def poll_def terminal_def Let_def split: sum.splits)

lemma pollSearchStatus_skip:
  assumes "\<forall>r \<in> set pre. in_progress taskId r"
  shows "\<exists>s'. pollSearchStatus taskId obs (pre @ rs) s = pollSearchStatus taskId obs rs s'"
  using assms
proof (induction pre arbitrary: s)
  case Nil
  then show ?case by auto
next
  case (Cons r pre)
  from Cons.prems obtain s1 where s1: "poll taskId obs r s = (Schedule, s1)"
    using poll_in_progress [of taskId r obs s] by auto
  from Cons.IH [of s1] Cons.prems obtain s' where
    "pollSearchStatus taskId obs (pre @ rs) s1 = pollSearchStatus taskId obs rs s'"
    by auto
  with s1 show ?case by auto
qed

text \<open>
  C6.  For every task id, after any number of status replies that keep the poll going: a
  reply with status \<^verbatim>\<open>completed\<close> resolves the poll with the fetched task; status
  \<^verbatim>\<open>error\<close> rejects it with \<^verbatim>\<open>task.error || task.message\<close>, that is with the task's error
  text when it has a non-empty one and with its message otherwise; status \<^verbatim>\<open>cancelled\<close>
  rejects it with the cancellation error; and a failed status request rejects it with that
  failure at once, the replies behind it never being asked for (no retry).
\<close>

theorem poll_settles:
  assumes "\<forall>r \<in> set pre. in_progress taskId r"
  shows "(getSearchStatus taskId reply = Inr task \<and> status task = Completed
            \<longrightarrow> fst (pollSearchStatus taskId obs (pre @ reply # rest) s) = Resolved task)
       \<and> (getSearchStatus taskId reply = Inr task \<and> status task = Error
            \<longrightarrow> fst (pollSearchStatus taskId obs (pre @ reply # rest) s)
                  = Rejected (TaskFailed (or_message (error task) (message task))))
       \<and> (getSearchStatus taskId reply = Inr task \<and> status task = Error
            \<and> error task = Some text \<and> text \<noteq> []
            \<longrightarrow> fst (pollSearchStatus taskId obs (pre @ reply # rest) s) = Rejected (TaskFailed text))
       \<and> (getSearchStatus taskId reply = Inr task \<and> status task = Error
            \<and> (error task = None \<or> error task = Some [])
            \<longrightarrow> fst (pollSearchStatus taskId obs (pre @ reply # rest) s)
                  = Rejected (TaskFailed (message task)))
       \<and> (getSearchStatus taskId reply = Inr task \<and> status task = Cancelled
            \<longrightarrow> fst (pollSearchStatus taskId obs (pre @ reply # rest) s) = Rejected SearchCancelled)
       \<and> (getSearchStatus taskId reply = Inl err
            \<longrightarrow> fst (pollSearchStatus taskId obs (pre @ reply # rest) s) = Rejected err
                \<and> snd (snd (pollSearchStatus taskId obs (pre @ reply # rest) s)) = rest)"
proof -
  obtain s' where "pollSearchStatus taskId obs (pre @ reply # rest) s
      = pollSearchStatus taskId obs (reply # rest) s'"
    using pollSearchStatus_skip [OF assms, of obs "reply # rest" s] by blast
  then show ?thesis
    by (auto simp: poll_def or_message_def Let_def)
qed

theorem poll_settles_witness:
  "in_progress ''T1'' (ok (report ''T1'' Started 0 []))
   \<and> in_progress ''T1'' (ok (report ''T1'' Generating_summaries 80 [article ''A'' []]))
   \<and> fst (pollSearchStatus ''T1'' (Some (\<lambda>task n. Suc n))
        ([ok (report ''T1'' Started 0 []), ok (report ''T1'' Generating_summaries 80 [article ''A'' []])]
         @ ok (report ''T1'' Completed 100 [article ''A'' []]) # [ok (report ''T1'' Completed 100 [])]) (0::nat))
       = Resolved (report ''T1'' Completed 100 [article ''A'' []])
   \<and> error (failed_report (Some ''boom'')) = Some ''boom''
   \<and> message (failed_report (Some ''boom'')) = ''msg''
   \<and> fst (pollSearchStatus ''T1'' (Some (\<lambda>task n. Suc n))
        ([ok (report ''T1'' Started 0 []), ok (report ''T1'' Generating_summaries 80 [article ''A'' []])]
         @ ok (failed_report (Some ''boom'')) # []) (0::nat))
       = Rejected (TaskFailed ''boom'')
   \<and> fst (pollSearchStatus ''T1'' (Some (\<lambda>task n. Suc n))
        ([ok (report ''T1'' Started 0 []), ok (report ''T1'' Generating_summaries 80 [article ''A'' []])]
         @ ok (failed_report None) # []) (0::nat))
       = Rejected (TaskFailed ''msg'')
   \<and> fst (pollSearchStatus ''T1'' (Some (\<lambda>task n. Suc n))
        ([ok (report ''T1'' Started 0 []), ok (report ''T1'' Generating_summaries 80 [article ''A'' []])]
         @ ok (failed_report (Some [])) # []) (0::nat))
       = Rejected (TaskFailed ''msg'')
   \<and> fst (pollSearchStatus ''T1'' (Some (\<lambda>task n. Suc n))
        ([ok (report ''T1'' Started 0 []), ok (report ''T1'' Generating_summaries 80 [article ''A'' []])]
         @ ok (report ''T1'' Cancelled 80 []) # []) (0::nat))
       = Rejected SearchCancelled
   \<and> fst (pollSearchStatus ''T1'' (Some (\<lambda>task n. Suc n))
        ([ok (report ''T1'' Started 0 []), ok (report ''T1'' Generating_summaries 80 [article ''A'' []])]
         @ not_found # [ok (report ''T1'' Completed 100 [])]) (0::nat))
       = Rejected (StatusRequestFailed ''NOT FOUND'')
   \<and> snd (snd (pollSearchStatus ''T1'' (Some (\<lambda>task n. Suc n))
        ([ok (report ''T1'' Started 0 []), ok (report ''T1'' Generating_summaries 80 [article ''A'' []])]
         @ not_found # [ok (report ''T1'' Completed 100 [])]) (0::nat)))
       = [ok (report ''T1'' Completed 100 [])]"
proof -
  let ?pre = "[ok (report ''T1'' Started 0 []), ok (report ''T1'' Generating_summaries 80 [article ''A'' []])]"
  let ?obs = "Some (\<lambda>task n. Suc n) :: (SearchTask \<Rightarrow> nat \<Rightarrow> nat) option"
  have p: "in_progress ''T1'' (ok (report ''T1'' Started 0 []))"
    "in_progress ''T1'' (ok (report ''T1'' Generating_summaries 80 [article ''A'' []]))"
    by (simp_all add: model_defs sample_defs)
  then have h: "\<forall>r \<in> set ?pre. in_progress ''T1'' r"
    by simp
  have c: "getSearchStatus ''T1'' (ok (report ''T1'' Completed 100 [article ''A'' []]))
      = Inr (report ''T1'' Completed 100 [article ''A'' []])"
    "status (report ''T1'' Completed 100 [article ''A'' []]) = Completed"
    by (simp_all add: model_defs sample_defs)
  have e: "getSearchStatus ''T1'' (ok (failed_report e)) = Inr (failed_report e)"
    "status (failed_report e) = Error" "error (failed_report e) = e"
    "message (failed_report e) = ''msg''" for e
    by (simp_all add: model_defs sample_defs)
  have x: "getSearchStatus ''T1'' (ok (report ''T1'' Cancelled 80 [])) = Inr (report ''T1'' Cancelled 80 [])"
    "status (report ''T1'' Cancelled 80 []) = Cancelled"
    by (simp_all add: model_defs sample_defs)
  have f: "getSearchStatus ''T1'' not_found = Inl (StatusRequestFailed ''NOT FOUND'')"
    by (simp add: model_defs sample_defs)
  show ?thesis
    using p c e x f
      poll_settles [OF h, of "ok (report ''T1'' Completed 100 [article ''A'' []])"
        "report ''T1'' Completed 100 [article ''A'' []]" ?obs "[ok (report ''T1'' Completed 100 [])]" "0::nat"]
      poll_settles [OF h, of "ok (failed_report (Some ''boom''))" "failed_report (Some ''boom'')"
        ?obs "[]" "0::nat" "''boom''"]
      poll_settles [OF h, of "ok (failed_report None)" "failed_report None" ?obs "[]" "0::nat"]
      poll_settles [OF h, of "ok (failed_report (Some []))" "failed_report (Some [])" ?obs "[]" "0::nat"]
      poll_settles [OF h, of "ok (report ''T1'' Cancelled 80 [])" "report ''T1'' Cancelled 80 []"
        ?obs "[]" "0::nat"]
      poll_settles [OF h, of not_found _ ?obs "[ok (report ''T1'' Completed 100 [])]" "0::nat" _
        "StatusRequestFailed ''NOT FOUND''"]
    by (simp add: or_message_def)
qed

section \<open>How the event loop treats the suspended invocations\<close>

lemma run_append: "run (es @ fs) w = run fs (run es w)"
  by (induction es arbitrary: w) auto

lemma length_invs_react: "length (invs w) \<le> length (invs (react e w))"
  by (cases e) (auto simp: handler_defs split: option.splits prod.splits)

text \<open>An event leaves every invocation it does not address as it is.\<close>

lemma react_other:
  assumes "j < length (invs w)" and "addressee e \<noteq> Some j"
  shows "invs (react e w) ! j = invs w ! j"
  using assms
  by (cases e) (auto simp: handleSubmit_def handleSmartSearch_def handleCancelSearch_def resume_def
      nth_append split: option.splits prod.splits)

lemma run_other:
  assumes "i < length (invs w)" and "\<forall>e \<in> set es. addressee e \<noteq> Some i"
  shows "i < length (invs (run es w)) \<and> invs (run es w) ! i = invs w ! i"
  using assms
proof (induction es arbitrary: w)
  case Nil
  then show ?case by simp
next
  case (Cons e es)
  have "invs (react e w) ! i = invs w ! i"
    using Cons.prems by (intro react_other) auto
  moreover have "i < length (invs (react e w))"
    using Cons.prems(1) length_invs_react [of w e] by simp
  ultimately show ?case
    using Cons.IH [of "react e w"] Cons.prems(2) by simp
qed

text \<open>An invocation that has returned is never resumed.\<close>

lemma react_Done:
  assumes "j < length (invs w)" and "pc (invs w ! j) = Done"
  shows "invs (react e w) ! j = invs w ! j"
proof (cases "addressee e = Some j")
  case True
  with assms show ?thesis
    by (cases e) (auto simp: resume_def afterCancel_def afterPaginated_def afterStatus_def afterTimer_def
        split: prod.splits)
next
  case False
  with assms(1) show ?thesis
    by (rule react_other)
qed

lemma run_Done:
  assumes "j < length (invs w)" and "pc (invs w ! j) = Done"
  shows "invs (run es w) ! j = invs w ! j"
  using assms
proof (induction es arbitrary: w)
  case Nil
  then show ?case by simp
next
  case (Cons e es)
  have eq: "invs (react e w) ! j = invs w ! j"
    using Cons.prems by (rule react_Done)
  moreover have "j < length (invs (react e w))"
    using Cons.prems(1) length_invs_react [of w e] by simp
  ultimately have "invs (run es (react e w)) ! j = invs (react e w) ! j"
    using Cons.IH [of "react e w"] Cons.prems(2) by simp
  with eq show ?case by simp
qed

lemma status_terminal:
  assumes "i < length (invs w)" and "pc (invs w ! i) = AwaitStatus q imm taskId"
    and "getSearchStatus taskId reply = Inr task" and "terminal (status task)"
  shows "pc (invs (react (StatusReply i reply) w) ! i) = Done"
    and "fetches (invs (react (StatusReply i reply) w) ! i) = fetches (invs w ! i)"
    and "length (invs (react (StatusReply i reply) w)) = length (invs w)"
  using assms
  by (auto simp: resume_def afterStatus_def poll_def terminal_def Let_def split: prod.splits)

text \<open>
  C7.  Terminal-state finality.  Once a poll has fetched a task with status \<^verbatim>\<open>completed\<close>,
  \<^verbatim>\<open>error\<close> or \<^verbatim>\<open>cancelled\<close>, its invocation has returned, and whatever events follow, the
  number of status requests it has issued no longer grows.  Against a sequence of replies,
  the poll leaves every reply behind the terminal one unasked.
\<close>

theorem terminal_observation_is_final:
  assumes "i < length (invs w)" and "pc (invs w ! i) = AwaitStatus q imm taskId"
    and "getSearchStatus taskId reply = Inr task" and "terminal (status task)"
  shows "pc (invs (run (StatusReply i reply # es) w) ! i) = Done
       \<and> fetches (invs (run (StatusReply i reply # es) w) ! i) = fetches (invs w ! i)
       \<and> ((\<forall>r \<in> set pre. in_progress taskId r)
            \<longrightarrow> snd (snd (pollSearchStatus taskId obs (pre @ reply # rest) s)) = rest)"
proof -
  let ?w = "react (StatusReply i reply) w"
  have "i < length (invs ?w)" and "pc (invs ?w ! i) = Done"
    using status_terminal [OF assms] assms(1) by simp_all
  then have "invs (run es ?w) ! i = invs ?w ! i"
    by (rule run_Done)
  then have world: "pc (invs (run (StatusReply i reply # es) w) ! i) = Done
       \<and> fetches (invs (run (StatusReply i reply # es) w) ! i) = fetches (invs w ! i)"
    using status_terminal [OF assms] by simp
  have script: "snd (snd (pollSearchStatus taskId obs (pre @ reply # rest) s)) = rest"
    if going: "\<forall>r \<in> set pre. in_progress taskId r"
  proof -
    obtain s' where "pollSearchStatus taskId obs (pre @ reply # rest) s
        = pollSearchStatus taskId obs (reply # rest) s'"
      using pollSearchStatus_skip [OF going, of obs "reply # rest" s] by blast
    then show ?thesis
      using assms(3,4) by (auto simp: poll_def terminal_def Let_def)
  qed
  from world script show ?thesis by blast
qed

theorem terminal_observation_is_final_witness:
  "0 < length (invs (run scenario_start (mounted [])))
   \<and> pc (invs (run scenario_start (mounted [])) ! 0) = AwaitStatus taiwan page_AB ''T1''
   \<and> getSearchStatus ''T1'' (ok done_BC) = Inr done_BC
   \<and> terminal (status done_BC)
   \<and> fetches (invs (run scenario_start (mounted [])) ! 0) = 2
   \<and> pc (invs (run (StatusReply 0 (ok done_BC) #
          [TimerFired 0, StatusReply 0 (ok done_BC), Submit ''q2'', TimerFired 0])
        (run scenario_start (mounted []))) ! 0) = Done
   \<and> fetches (invs (run (StatusReply 0 (ok done_BC) #
          [TimerFired 0, StatusReply 0 (ok done_BC), Submit ''q2'', TimerFired 0])
        (run scenario_start (mounted []))) ! 0) = 2
   \<and> in_progress ''T1'' (ok (report ''T1'' Started 0 []))
   \<and> snd (snd (pollSearchStatus ''T1'' (Some (\<lambda>task n. Suc n))
        ([ok (report ''T1'' Started 0 [])] @ ok done_BC # [ok done_BC, not_found]) (0::nat)))
       = [ok done_BC, not_found]"
proof -
  let ?w = "run scenario_start (mounted [])"
  have h1: "0 < length (invs ?w)"
    by (simp add: model_defs sample_defs)
  have h2: "pc (invs ?w ! 0) = AwaitStatus taiwan page_AB ''T1''"
    by (simp add: model_defs sample_defs)
  have h3: "getSearchStatus ''T1'' (ok done_BC) = Inr done_BC"
    by (simp add: model_defs sample_defs)
  have h4: "terminal (status done_BC)"
    by (simp add: model_defs sample_defs)
  have h5: "\<forall>r \<in> set [ok (report ''T1'' Started 0 [])]. in_progress ''T1'' r"
    by (simp add: model_defs sample_defs)
  have f: "fetches (invs ?w ! 0) = 2"
    by (simp add: model_defs sample_defs)
  show ?thesis
    using h1 h2 h3 h4 h5 f terminal_observation_is_final [OF h1 h2 h3 h4,
        of "[TimerFired 0, StatusReply 0 (ok done_BC), Submit ''q2'', TimerFired 0]"
          "[ok (report ''T1'' Started 0 [])]" "Some (\<lambda>task n. Suc n)" "[ok done_BC, not_found]" "0::nat"]
    by simp
qed

section \<open>Progress ticks and background failures\<close>

text \<open>
  C8.  A progress observation with a non-terminal status changes the progress display and
  nothing else (the console apart): \<^verbatim>\<open>currentSearchTask\<close> becomes the fetched task, and the
  displayed article list stays as it is, whatever articles the task carries.
\<close>

theorem progress_keeps_list:
  assumes "i < length (invs w)" and "pc (invs w ! i) = AwaitStatus q imm taskId"
    and "getSearchStatus taskId reply = Inr task" and "\<not> terminal (status task)"
  shows "ui (react (StatusReply i reply) w)
           = (ui w)\<lparr>console := console (ui w) @ [LogProgress task], currentSearchTask := Some task\<rparr>
       \<and> newsList (ui (react (StatusReply i reply) w)) = newsList (ui w)"
  using assms
  by (auto simp: resume_def afterStatus_def poll_def terminal_def Let_def counted_def onProgress_def
      split: prod.splits)

theorem progress_keeps_list_witness:
  "0 < length (invs (run scenario_start (mounted [])))
   \<and> pc (invs (run scenario_start (mounted [])) ! 0) = AwaitStatus taiwan page_AB ''T1''
   \<and> getSearchStatus ''T1'' (ok (report ''T1'' Generating_summaries 80 [article ''C'' []]))
       = Inr (report ''T1'' Generating_summaries 80 [article ''C'' []])
   \<and> \<not> terminal (status (report ''T1'' Generating_summaries 80 [article ''C'' []]))
   \<and> newsList (ui (react (StatusReply 0 (ok (report ''T1'' Generating_summaries 80 [article ''C'' []])))
        (run scenario_start (mounted [])))) = [article ''A'' [], article ''B'' []]
   \<and> currentSearchTask (ui (react (StatusReply 0 (ok (report ''T1'' Generating_summaries 80 [article ''C'' []])))
        (run scenario_start (mounted []))))
       = Some (report ''T1'' Generating_summaries 80 [article ''C'' []])"
proof -
  let ?w = "run scenario_start (mounted [])"
  let ?t = "report ''T1'' Generating_summaries 80 [article ''C'' []]"
  have h1: "0 < length (invs ?w)"
    by (simp add: model_defs sample_defs)
  have h2: "pc (invs ?w ! 0) = AwaitStatus taiwan page_AB ''T1''"
    by (simp add: model_defs sample_defs)
  have h3: "getSearchStatus ''T1'' (ok ?t) = Inr ?t"
    by (simp add: model_defs sample_defs)
  have h4: "\<not> terminal (status ?t)"
    by (simp add: model_defs sample_defs)
  have l: "newsList (ui ?w) = [article ''A'' [], article ''B'' []]"
    by (simp add: model_defs sample_defs)
  show ?thesis
    using h1 h2 h3 h4 l progress_keeps_list [OF h1 h2 h3 h4]
    by simp
qed

text \<open>One progress tick (a reply that keeps the poll going, then the timer), and many.\<close>

lemma status_in_progress:
  assumes "i < length (invs w)" and "pc (invs w ! i) = AwaitStatus q imm taskId"
    and "in_progress taskId reply"
  shows "\<exists>task. getSearchStatus taskId reply = Inr task
      \<and> react (StatusReply i reply) w
        = \<lparr>ui = onProgress task (ui w),
           invs = (invs w)[i := (invs w ! i)\<lparr>pc := AwaitTimer q imm taskId,
                                              observed := Suc (observed (invs w ! i))\<rparr>]\<rparr>"
  using assms
  by (auto simp: in_progress_def resume_def afterStatus_def poll_def terminal_def Let_def counted_def
      split: sum.splits)

lemma tick_keeps_polling:
  assumes "i < length (invs w)" and "pc (invs w ! i) = AwaitStatus q imm taskId"
    and "in_progress taskId reply"
  shows "i < length (invs (run [StatusReply i reply, TimerFired i] w))
       \<and> pc (invs (run [StatusReply i reply, TimerFired i] w) ! i) = AwaitStatus q imm taskId
       \<and> newsList (ui (run [StatusReply i reply, TimerFired i] w)) = newsList (ui w)
       \<and> uiError (ui (run [StatusReply i reply, TimerFired i] w)) = uiError (ui w)"
proof -
  obtain task where "react (StatusReply i reply) w
        = \<lparr>ui = onProgress task (ui w),
           invs = (invs w)[i := (invs w ! i)\<lparr>pc := AwaitTimer q imm taskId,
                                              observed := Suc (observed (invs w ! i))\<rparr>]\<rparr>"
    using status_in_progress [OF assms] by blast
  then show ?thesis
    using assms(1) by (simp add: resume_def afterTimer_def onProgress_def)
qed

lemma ticks_keep_polling:
  assumes "i < length (invs w)" and "pc (invs w ! i) = AwaitStatus q imm taskId"
    and "\<forall>r \<in> set pre. in_progress taskId r"
  shows "i < length (invs (run (ticks i pre) w))
       \<and> pc (invs (run (ticks i pre) w) ! i) = AwaitStatus q imm taskId
       \<and> newsList (ui (run (ticks i pre) w)) = newsList (ui w)
       \<and> uiError (ui (run (ticks i pre) w)) = uiError (ui w)"
  using assms
proof (induction pre arbitrary: w)
  case Nil
  then show ?case by (simp add: ticks_def)
next
  case (Cons r pre)
  let ?w = "run [StatusReply i r, TimerFired i] w"
  have step: "i < length (invs ?w) \<and> pc (invs ?w ! i) = AwaitStatus q imm taskId
       \<and> newsList (ui ?w) = newsList (ui w) \<and> uiError (ui ?w) = uiError (ui w)"
    using Cons.prems by (intro tick_keeps_polling) auto
  have unfold: "run (ticks i (r # pre)) w = run (ticks i pre) ?w"
    by (simp add: ticks_def)
  show ?case
    using Cons.IH [of ?w] step Cons.prems(3) unfolding unfold by simp
qed

lemma immediate_with_task:
  assumes "i < length (invs w)" and "pc (invs w ! i) = AwaitPaginated q"
    and "paginatedSearch q 1 8 reply = Inr imm"
    and "or_null (background_task_id imm) = Some taskId"
  shows "i < length (invs (react (PaginatedReply i reply) w))
       \<and> pc (invs (react (PaginatedReply i reply) w) ! i) = AwaitStatus q imm taskId
       \<and> newsList (ui (react (PaginatedReply i reply) w)) = immediate_articles imm
       \<and> uiError (ui (react (PaginatedReply i reply) w)) = uiError (ui w)"
  using assms
  by (simp add: resume_def afterPaginated_def onImmediateResults_def Let_def)

lemma status_rejected:
  assumes "i < length (invs w)" and "pc (invs w ! i) = AwaitStatus q imm taskId"
    and "getSearchStatus taskId reply = Inl err
       \<or> (\<exists>task. getSearchStatus taskId reply = Inr task \<and> (status task = Error \<or> status task = Cancelled))"
  shows "newsList (ui (react (StatusReply i reply) w)) = newsList (ui w)
       \<and> uiError (ui (react (StatusReply i reply) w)) = uiError (ui w)
       \<and> isSearching (ui (react (StatusReply i reply) w)) = False
       \<and> pc (invs (react (StatusReply i reply) w) ! i) = Done
       \<and> (\<exists>c e. console (ui (react (StatusReply i reply) w))
                 = c @ [ErrorBackgroundFailed e, LogSmartSearchDone imm None])"
  using assms
  by (auto simp: resume_def afterStatus_def poll_def Let_def counted_def onProgress_def
      finishSmartSearch_def)

text \<open>
  C5.  Failure non-destructiveness.  A search receives its immediate results with a
  background task; the poll sees any number of progress replies and then ends in failure:
  a task with status \<^verbatim>\<open>error\<close> or \<^verbatim>\<open>cancelled\<close>, or a failed status request.  The displayed
  list is then exactly the list of the immediate wave, the error state of the view is what
  it was before (the failure is not raised to the search), the search has ended normally
  with the immediate results alone, and the failure is the console notice written just
  before that.
\<close>

theorem background_failure_keeps_immediate_results:
  assumes "i < length (invs w)" and "pc (invs w ! i) = AwaitPaginated q"
    and "paginatedSearch q 1 8 first = Inr imm"
    and "or_null (background_task_id imm) = Some taskId"
    and "\<forall>r \<in> set pre. in_progress taskId r"
    and "getSearchStatus taskId final = Inl err
       \<or> (\<exists>task. getSearchStatus taskId final = Inr task \<and> (status task = Error \<or> status task = Cancelled))"
  shows "newsList (ui (run (PaginatedReply i first # ticks i pre @ [StatusReply i final]) w))
           = immediate_articles imm
       \<and> uiError (ui (run (PaginatedReply i first # ticks i pre @ [StatusReply i final]) w)) = uiError (ui w)
       \<and> isSearching (ui (run (PaginatedReply i first # ticks i pre @ [StatusReply i final]) w)) = False
       \<and> pc (invs (run (PaginatedReply i first # ticks i pre @ [StatusReply i final]) w) ! i) = Done
       \<and> (\<exists>c e. console (ui (run (PaginatedReply i first # ticks i pre @ [StatusReply i final]) w))
                 = c @ [ErrorBackgroundFailed e, LogSmartSearchDone imm None])"
proof -
  let ?w1 = "react (PaginatedReply i first) w"
  let ?w2 = "run (ticks i pre) ?w1"
  have w1: "i < length (invs ?w1) \<and> pc (invs ?w1 ! i) = AwaitStatus q imm taskId
       \<and> newsList (ui ?w1) = immediate_articles imm \<and> uiError (ui ?w1) = uiError (ui w)"
    using assms(1-4) by (rule immediate_with_task)
  then have w2: "i < length (invs ?w2) \<and> pc (invs ?w2 ! i) = AwaitStatus q imm taskId
       \<and> newsList (ui ?w2) = newsList (ui ?w1) \<and> uiError (ui ?w2) = uiError (ui ?w1)"
    using assms(5) by (intro ticks_keep_polling) auto
  have whole: "run (PaginatedReply i first # ticks i pre @ [StatusReply i final]) w
      = react (StatusReply i final) ?w2"
    by (simp add: run_append)
  have "newsList (ui (react (StatusReply i final) ?w2)) = newsList (ui ?w2)
       \<and> uiError (ui (react (StatusReply i final) ?w2)) = uiError (ui ?w2)
       \<and> isSearching (ui (react (StatusReply i final) ?w2)) = False
       \<and> pc (invs (react (StatusReply i final) ?w2) ! i) = Done
       \<and> (\<exists>c e. console (ui (react (StatusReply i final) ?w2))
                 = c @ [ErrorBackgroundFailed e, LogSmartSearchDone imm None])"
    using w2 assms(6) by (intro status_rejected) auto
  with w1 w2 show ?thesis
    unfolding whole by simp
qed

theorem background_failure_keeps_immediate_results_witness:
  "0 < length (invs (run [Submit ''q1''] (mounted [])))
   \<and> pc (invs (run [Submit ''q1''] (mounted [])) ! 0) = AwaitPaginated ''q1''
   \<and> paginatedSearch ''q1'' 1 8 (ok page_five) = Inr page_five
   \<and> or_null (background_task_id page_five) = Some ''T1''
   \<and> in_progress ''T1'' (ok (report ''T1'' Started 0 []))
   \<and> in_progress ''T1'' (ok (report ''T1'' Fetching_content 50 [article ''9'' []]))
   \<and> getSearchStatus ''T1'' (ok (report ''T1'' Error 50 [article ''9'' []]))
       = Inr (report ''T1'' Error 50 [article ''9'' []])
   \<and> status (report ''T1'' Error 50 [article ''9'' []]) = Error
   \<and> newsList (ui (run (PaginatedReply 0 (ok page_five) #
          ticks 0 [ok (report ''T1'' Started 0 []), ok (report ''T1'' Fetching_content 50 [article ''9'' []])] @
          [StatusReply 0 (ok (report ''T1'' Error 50 [article ''9'' []]))])
        (run [Submit ''q1''] (mounted []))))
       = [article ''1'' [], article ''2'' [], article ''3'' [], article ''4'' [], article ''5'' []]
   \<and> uiError (ui (run (PaginatedReply 0 (ok page_five) #
          ticks 0 [ok (report ''T1'' Started 0 []), ok (report ''T1'' Fetching_content 50 [article ''9'' []])] @
          [StatusReply 0 (ok (report ''T1'' Error 50 [article ''9'' []]))])
        (run [Submit ''q1''] (mounted [])))) = None"
proof -
  let ?w = "run [Submit ''q1''] (mounted [])"
  let ?pre = "[ok (report ''T1'' Started 0 []), ok (report ''T1'' Fetching_content 50 [article ''9'' []])]"
  let ?t = "report ''T1'' Error 50 [article ''9'' []]"
  have h1: "0 < length (invs ?w)"
    by (simp add: model_defs sample_defs)
  have h2: "pc (invs ?w ! 0) = AwaitPaginated ''q1''"
    by (simp add: model_defs sample_defs)
  have h3: "paginatedSearch ''q1'' 1 8 (ok page_five) = Inr page_five"
    by (simp add: model_defs ok_def)
  have h4: "or_null (background_task_id page_five) = Some ''T1''"
    by (simp add: model_defs sample_defs)
  have h5: "\<forall>r \<in> set ?pre. in_progress ''T1'' r"
    by (simp add: model_defs sample_defs)
  have t: "getSearchStatus ''T1'' (ok ?t) = Inr ?t" "status ?t = Error"
    by (simp_all add: model_defs sample_defs)
  then have h6: "getSearchStatus ''T1'' (ok ?t) = Inl FetchTypeError
       \<or> (\<exists>task. getSearchStatus ''T1'' (ok ?t) = Inr task \<and> (status task = Error \<or> status task = Cancelled))"
    by simp
  have e: "uiError (ui ?w) = None"
    by (simp add: model_defs sample_defs)
  have a: "immediate_articles page_five
      = [article ''1'' [], article ''2'' [], article ''3'' [], article ''4'' [], article ''5'' []]"
    by (simp add: sample_defs)
  show ?thesis
    using h1 h2 h3 h4 h5 t e a background_failure_keeps_immediate_results [OF h1 h2 h3 h4 h5 h6]
    by simp
qed

section \<open>Overlapping searches\<close>

lemma status_observed:
  assumes "i < length (invs w)" and "pc (invs w ! i) = AwaitStatus q imm taskId"
    and "getSearchStatus taskId reply = Inr task"
  shows "observed (invs (react (StatusReply i reply) w) ! i) = Suc (observed (invs w ! i))
       \<and> currentSearchTask (ui (react (StatusReply i reply) w)) = Some task"
  using assms
  by (auto simp: resume_def afterStatus_def poll_def Let_def counted_def onProgress_def
      onFinalResults_def finishSmartSearch_def)

lemma status_not_in_progress:
  assumes "i < length (invs w)" and "pc (invs w ! i) = AwaitStatus q imm taskId"
    and "\<not> in_progress taskId reply"
  shows "i < length (invs (react (StatusReply i reply) w))
       \<and> pc (invs (react (StatusReply i reply) w) ! i) = Done"
  using assms
  by (auto simp: in_progress_def resume_def afterStatus_def poll_def terminal_def Let_def
      split: sum.splits)

lemma timer_fires:
  assumes "i < length (invs w)" and "pc (invs w ! i) = AwaitTimer q imm taskId"
  shows "i < length (invs (react (TimerFired i) w))
       \<and> invs (react (TimerFired i) w) ! i
           = (invs w ! i)\<lparr>pc := AwaitStatus q imm taskId, fetches := Suc (fetches (invs w ! i))\<rparr>"
  using assms by (simp add: resume_def afterTimer_def)

lemma reply_in_progress:
  assumes "i < length (invs w)" and "pc (invs w ! i) = AwaitStatus q imm taskId"
    and "in_progress taskId reply"
  shows "i < length (invs (react (StatusReply i reply) w))
       \<and> invs (react (StatusReply i reply) w) ! i
           = (invs w ! i)\<lparr>pc := AwaitTimer q imm taskId, observed := Suc (observed (invs w ! i))\<rparr>"
  using assms
  by (auto simp: in_progress_def resume_def afterStatus_def poll_def terminal_def Let_def counted_def
      split: sum.splits)

text \<open>One round of a poll, with other events before and after its reply.\<close>

lemma round_keeps_polling:
  assumes "i < length (invs w)" and "pc (invs w ! i) = AwaitStatus q imm taskId"
    and "in_progress taskId reply"
    and "\<forall>e \<in> set es. addressee e \<noteq> Some i" and "\<forall>e \<in> set fs. addressee e \<noteq> Some i"
  shows "i < length (invs (run (es @ StatusReply i reply # fs) w))
       \<and> invs (run (es @ StatusReply i reply # fs) w) ! i
           = (invs w ! i)\<lparr>pc := AwaitTimer q imm taskId, observed := Suc (observed (invs w ! i))\<rparr>"
    and "i < length (invs (run (es @ StatusReply i reply # fs @ [TimerFired i]) w))
       \<and> invs (run (es @ StatusReply i reply # fs @ [TimerFired i]) w) ! i
           = (invs w ! i)\<lparr>pc := AwaitStatus q imm taskId, observed := Suc (observed (invs w ! i)),
                            fetches := Suc (fetches (invs w ! i))\<rparr>"
proof -
  let ?w1 = "run es w"
  let ?w2 = "react (StatusReply i reply) ?w1"
  let ?w3 = "run fs ?w2"
  have w1: "i < length (invs ?w1) \<and> invs ?w1 ! i = invs w ! i"
    using assms(1,4) by (rule run_other)
  then have w2: "i < length (invs ?w2)
       \<and> invs ?w2 ! i = (invs ?w1 ! i)\<lparr>pc := AwaitTimer q imm taskId,
                                         observed := Suc (observed (invs ?w1 ! i))\<rparr>"
    using assms(2,3) by (intro reply_in_progress) auto
  then have w3: "i < length (invs ?w3) \<and> invs ?w3 ! i = invs ?w2 ! i"
    using assms(5) by (intro run_other) auto
  have eq3: "run (es @ StatusReply i reply # fs) w = ?w3"
    by (simp add: run_append)
  from w1 w2 w3 show first: "i < length (invs (run (es @ StatusReply i reply # fs) w))
       \<and> invs (run (es @ StatusReply i reply # fs) w) ! i
           = (invs w ! i)\<lparr>pc := AwaitTimer q imm taskId, observed := Suc (observed (invs w ! i))\<rparr>"
    unfolding eq3 by simp
  have eq4: "run (es @ StatusReply i reply # fs @ [TimerFired i]) w = react (TimerFired i) ?w3"
    using run_append [of "es @ StatusReply i reply # fs" "[TimerFired i]" w] eq3 by simp
  have "i < length (invs (react (TimerFired i) ?w3))
       \<and> invs (react (TimerFired i) ?w3) ! i
           = (invs ?w3 ! i)\<lparr>pc := AwaitStatus q imm taskId, fetches := Suc (fetches (invs ?w3 ! i))\<rparr>"
    using w1 w2 w3 by (intro timer_fires) auto
  with w1 w2 w3 show "i < length (invs (run (es @ StatusReply i reply # fs @ [TimerFired i]) w))
       \<and> invs (run (es @ StatusReply i reply # fs @ [TimerFired i]) w) ! i
           = (invs w ! i)\<lparr>pc := AwaitStatus q imm taskId, observed := Suc (observed (invs w ! i)),
                            fetches := Suc (fetches (invs w ! i))\<rparr>"
    unfolding eq4 by simp
qed

lemma rounds_keep_polling:
  assumes "i < length (invs w)" and "pc (invs w ! i) = AwaitStatus q imm taskId"
    and "\<forall>(es, reply, fs) \<in> set rs. in_progress taskId reply
           \<and> (\<forall>e \<in> set es. addressee e \<noteq> Some i) \<and> (\<forall>e \<in> set fs. addressee e \<noteq> Some i)"
  shows "i < length (invs (run (rounds i rs) w))
       \<and> pc (invs (run (rounds i rs) w) ! i) = AwaitStatus q imm taskId
       \<and> observed (invs (run (rounds i rs) w) ! i) = observed (invs w ! i) + length rs
       \<and> fetches (invs (run (rounds i rs) w) ! i) = fetches (invs w ! i) + length rs"
  using assms
proof (induction rs arbitrary: w)
  case Nil
  then show ?case by simp
next
  case (Cons r rs)
  obtain es reply fs where r: "r = (es, reply, fs)"
    by (cases r) auto
  let ?w = "run (es @ StatusReply i reply # fs @ [TimerFired i]) w"
  have one: "i < length (invs ?w)
       \<and> invs ?w ! i = (invs w ! i)\<lparr>pc := AwaitStatus q imm taskId,
             observed := Suc (observed (invs w ! i)), fetches := Suc (fetches (invs w ! i))\<rparr>"
    using Cons.prems r by (intro round_keeps_polling(2)) auto
  have split: "run (rounds i (r # rs)) w = run (rounds i rs) ?w"
    using run_append [of "es @ StatusReply i reply # fs @ [TimerFired i]" "rounds i rs" w] r by simp
  show ?case
    using Cons.IH [of ?w] one Cons.prems(3) unfolding split by simp
qed

text \<open>
  C2, as the code has it.  Nothing abandons a poll: no flag or token is checked before the
  next status request.  Whatever happens while a poll waits for a status reply or for its
  timer (further submissions, clicks on cancel, replies and timers of other invocations),
  the poll is left as it is.  When its reply brings a task, its progress observer is called
  with that task, which becomes the task of the progress display.  When the reply keeps
  the poll going, the poll waits for its timer and then issues its next status request,
  and so on for any number of rounds, each with one observer call and one further request.
  The poll ends exactly when a reply brings a terminal status or the request fails.  So
  after submissions in rapid succession several polls can be calling their observers.
\<close>

theorem superseded_poll_keeps_observing:
  assumes "i < length (invs w)" and "pc (invs w ! i) = AwaitStatus q imm taskId"
    and "\<forall>e \<in> set es. addressee e \<noteq> Some i" and "\<forall>e \<in> set fs. addressee e \<noteq> Some i"
  shows "(getSearchStatus taskId reply = Inr task \<longrightarrow>
            observed (invs (run (es @ [StatusReply i reply]) w) ! i) = Suc (observed (invs w ! i))
          \<and> currentSearchTask (ui (run (es @ [StatusReply i reply]) w)) = Some task)
       \<and> (in_progress taskId reply \<longrightarrow>
            pc (invs (run (es @ StatusReply i reply # fs) w) ! i) = AwaitTimer q imm taskId
          \<and> pc (invs (run (es @ StatusReply i reply # fs @ [TimerFired i]) w) ! i)
              = AwaitStatus q imm taskId
          \<and> fetches (invs (run (es @ StatusReply i reply # fs @ [TimerFired i]) w) ! i)
              = Suc (fetches (invs w ! i)))
       \<and> (\<not> in_progress taskId reply \<longrightarrow>
            pc (invs (run (es @ StatusReply i reply # fs) w) ! i) = Done)
       \<and> ((\<forall>(es', reply', fs') \<in> set rs. in_progress taskId reply'
              \<and> (\<forall>e \<in> set es'. addressee e \<noteq> Some i) \<and> (\<forall>e \<in> set fs'. addressee e \<noteq> Some i)) \<longrightarrow>
            pc (invs (run (rounds i rs) w) ! i) = AwaitStatus q imm taskId
          \<and> observed (invs (run (rounds i rs) w) ! i) = observed (invs w ! i) + length rs
          \<and> fetches (invs (run (rounds i rs) w) ! i) = fetches (invs w ! i) + length rs)"
proof -
  let ?w = "run es w"
  have same: "i < length (invs ?w) \<and> invs ?w ! i = invs w ! i"
    using assms(1,3) by (rule run_other)
  have obs: "observed (invs (run (es @ [StatusReply i reply]) w) ! i) = Suc (observed (invs w ! i))
          \<and> currentSearchTask (ui (run (es @ [StatusReply i reply]) w)) = Some task"
    if fetched: "getSearchStatus taskId reply = Inr task"
  proof -
    have "observed (invs (react (StatusReply i reply) ?w) ! i) = Suc (observed (invs ?w ! i))
       \<and> currentSearchTask (ui (react (StatusReply i reply) ?w)) = Some task"
      using same assms(2) fetched by (intro status_observed) auto
    with same show ?thesis
      by (simp add: run_append)
  qed
  have going: "pc (invs (run (es @ StatusReply i reply # fs) w) ! i) = AwaitTimer q imm taskId
          \<and> pc (invs (run (es @ StatusReply i reply # fs @ [TimerFired i]) w) ! i)
              = AwaitStatus q imm taskId
          \<and> fetches (invs (run (es @ StatusReply i reply # fs @ [TimerFired i]) w) ! i)
              = Suc (fetches (invs w ! i))"
    if more: "in_progress taskId reply"
  proof -
    let ?w2 = "react (StatusReply i reply) ?w"
    let ?w3 = "run fs ?w2"
    have w2: "i < length (invs ?w2) \<and> pc (invs ?w2 ! i) = AwaitTimer q imm taskId
         \<and> fetches (invs ?w2 ! i) = fetches (invs ?w ! i)"
      using same assms(2) more
      by (auto simp: in_progress_def resume_def afterStatus_def poll_def terminal_def Let_def
          counted_def split: sum.splits)
    then have w3: "i < length (invs ?w3) \<and> invs ?w3 ! i = invs ?w2 ! i"
      using assms(4) by (intro run_other) auto
    have w4: "pc (invs (react (TimerFired i) ?w3) ! i) = AwaitStatus q imm taskId
         \<and> fetches (invs (react (TimerFired i) ?w3) ! i) = Suc (fetches (invs ?w3 ! i))"
      using w2 w3 by (simp add: resume_def afterTimer_def)
    have "run (es @ StatusReply i reply # fs) w = ?w3"
      by (simp add: run_append)
    moreover have "run (es @ StatusReply i reply # fs @ [TimerFired i]) w = react (TimerFired i) ?w3"
      using run_append [of "es @ StatusReply i reply # fs" "[TimerFired i]" w] by (simp add: run_append)
    ultimately show ?thesis
      using same w2 w3 w4 by simp
  qed
  have ended: "pc (invs (run (es @ StatusReply i reply # fs) w) ! i) = Done"
    if last: "\<not> in_progress taskId reply"
  proof -
    let ?w2 = "react (StatusReply i reply) ?w"
    have w2: "i < length (invs ?w2) \<and> pc (invs ?w2 ! i) = Done"
      using same assms(2) last by (intro status_not_in_progress) auto
    then have "invs (run fs ?w2) ! i = invs ?w2 ! i"
      by (intro run_Done) auto
    with w2 show ?thesis
      by (simp add: run_append)
  qed
  have many: "pc (invs (run (rounds i rs) w) ! i) = AwaitStatus q imm taskId
          \<and> observed (invs (run (rounds i rs) w) ! i) = observed (invs w ! i) + length rs
          \<and> fetches (invs (run (rounds i rs) w) ! i) = fetches (invs w ! i) + length rs"
    if all: "\<forall>(es', reply', fs') \<in> set rs. in_progress taskId reply'
              \<and> (\<forall>e \<in> set es'. addressee e \<noteq> Some i) \<and> (\<forall>e \<in> set fs'. addressee e \<noteq> Some i)"
    using rounds_keep_polling [OF assms(1,2) all] by simp
  from obs going ended many show ?thesis
    by blast
qed

theorem superseded_poll_keeps_observing_witness:
  "1 < length (invs (run rapid (mounted [])))
   \<and> pc (invs (run rapid (mounted [])) ! 1) = AwaitStatus ''q2'' (first_page [article ''B'' []] (Some ''T2'')) ''T2''
   \<and> addressee (Submit ''q5'') \<noteq> Some 1
   \<and> addressee CancelClicked \<noteq> Some 1
   \<and> addressee (StatusReply 3 (ok (report ''T4'' Completed 100 []))) \<noteq> Some 1
   \<and> addressee (StatusReply 2 (ok (report ''T3'' Fetching_articles 20 []))) \<noteq> Some 1
   \<and> addressee (Submit ''q6'') \<noteq> Some 1
   \<and> getSearchStatus ''T2'' (ok (report ''T2'' Fetching_articles 20 [])) = Inr (report ''T2'' Fetching_articles 20 [])
   \<and> in_progress ''T2'' (ok (report ''T2'' Started 0 []))
   \<and> in_progress ''T2'' (ok (report ''T2'' Fetching_articles 20 []))
   \<and> \<not> in_progress ''T2'' (ok (report ''T2'' Cancelled 20 []))
   \<and> \<not> in_progress ''T2'' not_found
   \<and> observed (invs (run rapid (mounted [])) ! 1) = 0
   \<and> fetches (invs (run rapid (mounted [])) ! 1) = 1
   \<and> observed (invs (run ([Submit ''q5'', CancelClicked, StatusReply 3 (ok (report ''T4'' Completed 100 []))]
          @ [StatusReply 1 (ok (report ''T2'' Fetching_articles 20 []))]) (run rapid (mounted []))) ! 1) = 1
   \<and> currentSearchTask (ui (run ([Submit ''q5'', CancelClicked, StatusReply 3 (ok (report ''T4'' Completed 100 []))]
          @ [StatusReply 1 (ok (report ''T2'' Fetching_articles 20 []))]) (run rapid (mounted []))))
       = Some (report ''T2'' Fetching_articles 20 [])
   \<and> pc (invs (run ([Submit ''q5'', CancelClicked, StatusReply 3 (ok (report ''T4'' Completed 100 []))]
          @ StatusReply 1 (ok (report ''T2'' Fetching_articles 20 []))
          # [StatusReply 2 (ok (report ''T3'' Fetching_articles 20 [])), Submit ''q6''])
        (run rapid (mounted []))) ! 1)
       = AwaitTimer ''q2'' (first_page [article ''B'' []] (Some ''T2'')) ''T2''
   \<and> pc (invs (run ([Submit ''q5'', CancelClicked, StatusReply 3 (ok (report ''T4'' Completed 100 []))]
          @ StatusReply 1 (ok (report ''T2'' Fetching_articles 20 []))
          # [StatusReply 2 (ok (report ''T3'' Fetching_articles 20 [])), Submit ''q6''] @ [TimerFired 1])
        (run rapid (mounted []))) ! 1)
       = AwaitStatus ''q2'' (first_page [article ''B'' []] (Some ''T2'')) ''T2''
   \<and> fetches (invs (run ([Submit ''q5'', CancelClicked, StatusReply 3 (ok (report ''T4'' Completed 100 []))]
          @ StatusReply 1 (ok (report ''T2'' Fetching_articles 20 []))
          # [StatusReply 2 (ok (report ''T3'' Fetching_articles 20 [])), Submit ''q6''] @ [TimerFired 1])
        (run rapid (mounted []))) ! 1) = 2
   \<and> pc (invs (run ([Submit ''q5'', CancelClicked, StatusReply 3 (ok (report ''T4'' Completed 100 []))]
          @ StatusReply 1 (ok (report ''T2'' Cancelled 20 []))
          # [StatusReply 2 (ok (report ''T3'' Fetching_articles 20 [])), Submit ''q6''])
        (run rapid (mounted []))) ! 1) = Done
   \<and> pc (invs (run ([Submit ''q5'', CancelClicked, StatusReply 3 (ok (report ''T4'' Completed 100 []))]
          @ StatusReply 1 not_found
          # [StatusReply 2 (ok (report ''T3'' Fetching_articles 20 [])), Submit ''q6''])
        (run rapid (mounted []))) ! 1) = Done
   \<and> pc (invs (run (rounds 1
          [([Submit ''q5''], ok (report ''T2'' Started 0 []), [StatusReply 3 (ok (report ''T4'' Completed 100 []))]),
           ([CancelClicked], ok (report ''T2'' Fetching_articles 20 []), [Submit ''q6''])])
        (run rapid (mounted []))) ! 1)
       = AwaitStatus ''q2'' (first_page [article ''B'' []] (Some ''T2'')) ''T2''
   \<and> observed (invs (run (rounds 1
          [([Submit ''q5''], ok (report ''T2'' Started 0 []), [StatusReply 3 (ok (report ''T4'' Completed 100 []))]),
           ([CancelClicked], ok (report ''T2'' Fetching_articles 20 []), [Submit ''q6''])])
        (run rapid (mounted []))) ! 1) = 2
   \<and> fetches (invs (run (rounds 1
          [([Submit ''q5''], ok (report ''T2'' Started 0 []), [StatusReply 3 (ok (report ''T4'' Completed 100 []))]),
           ([CancelClicked], ok (report ''T2'' Fetching_articles 20 []), [Submit ''q6''])])
        (run rapid (mounted []))) ! 1) = 3"
proof -
  let ?w = "run rapid (mounted [])"
  let ?es = "[Submit ''q5'', CancelClicked, StatusReply 3 (ok (report ''T4'' Completed 100 []))]"
  let ?fs = "[StatusReply 2 (ok (report ''T3'' Fetching_articles 20 [])), Submit ''q6'']"
  let ?tick = "ok (report ''T2'' Fetching_articles 20 [])"
  let ?rs = "[([Submit ''q5''], ok (report ''T2'' Started 0 []), [StatusReply 3 (ok (report ''T4'' Completed 100 []))]),
              ([CancelClicked], ?tick, [Submit ''q6''])]"
  have h1: "1 < length (invs ?w)"
    by (simp add: model_defs sample_defs)
  have h2: "pc (invs ?w ! 1) = AwaitStatus ''q2'' (first_page [article ''B'' []] (Some ''T2'')) ''T2''"
    by (simp add: model_defs sample_defs)
  have h3: "\<forall>e \<in> set ?es. addressee e \<noteq> Some 1"
    by simp
  have h4: "\<forall>e \<in> set ?fs. addressee e \<noteq> Some 1"
    by simp
  have g: "getSearchStatus ''T2'' ?tick = Inr (report ''T2'' Fetching_articles 20 [])"
    by (simp add: model_defs sample_defs)
  have p: "in_progress ''T2'' (ok (report ''T2'' Started 0 []))" "in_progress ''T2'' ?tick"
    "\<not> in_progress ''T2'' (ok (report ''T2'' Cancelled 20 []))" "\<not> in_progress ''T2'' not_found"
    by (simp_all add: model_defs sample_defs)
  have n: "observed (invs ?w ! 1) = 0" "fetches (invs ?w ! 1) = 1"
    by (simp_all add: model_defs sample_defs)
  have direct: "pc (invs (run (?es @ StatusReply 1 ?tick # ?fs) ?w) ! 1)
        = AwaitTimer ''q2'' (first_page [article ''B'' []] (Some ''T2'')) ''T2''"
    "fetches (invs (run (?es @ StatusReply 1 ?tick # ?fs @ [TimerFired 1]) ?w) ! 1) = 2"
    "observed (invs (run (rounds 1 ?rs) ?w) ! 1) = 2"
    by (simp_all add: model_defs sample_defs)
  show ?thesis
    using h1 h2 g p n direct
      superseded_poll_keeps_observing [OF h1 h2 h3 h4, of ?tick "report ''T2'' Fetching_articles 20 []" ?rs]
      superseded_poll_keeps_observing [OF h1 h2 h3 h4, of "ok (report ''T2'' Cancelled 20 [])" _ "[]"]
      superseded_poll_keeps_observing [OF h1 h2 h3 h4, of not_found _ "[]"]
    by simp
qed

text \<open>
  C2 as stated fails.  After a first search has ended, the form is submitted three times
  in rapid succession; the three invocations each start a poll (tasks \<open>T2\<close>, \<open>T3\<close>, \<open>T4\<close>),
  the view showing the last query.  Then the polls of the two superseded queries each
  have their observer called on the next reply, and each issues a further status request:
  three polls are active, not one.
\<close>

theorem superseded_polls_observe_counterexample:
  "map observed (invs (run rapid (mounted []))) = [1, 0, 0, 0]
   \<and> map fetches (invs (run rapid (mounted []))) = [1, 1, 1, 1]
   \<and> currentSearchQuery (ui (run rapid (mounted []))) = ''q4''
   \<and> map observed (invs (run (rapid @
        [StatusReply 3 (ok (report ''T4'' Started 0 [])),
         StatusReply 1 (ok (report ''T2'' Fetching_articles 20 [])), TimerFired 1,
         StatusReply 2 (ok (report ''T3'' Fetching_articles 20 [])), TimerFired 2]) (mounted [])))
       = [1, 1, 1, 1]
   \<and> map fetches (invs (run (rapid @
        [StatusReply 3 (ok (report ''T4'' Started 0 [])),
         StatusReply 1 (ok (report ''T2'' Fetching_articles 20 [])), TimerFired 1,
         StatusReply 2 (ok (report ''T3'' Fetching_articles 20 [])), TimerFired 2]) (mounted [])))
       = [1, 2, 2, 1]
   \<and> currentSearchTask (ui (run (rapid @
        [StatusReply 3 (ok (report ''T4'' Started 0 [])),
         StatusReply 1 (ok (report ''T2'' Fetching_articles 20 [])), TimerFired 1,
         StatusReply 2 (ok (report ''T3'' Fetching_articles 20 [])), TimerFired 2]) (mounted [])))
       = Some (report ''T3'' Fetching_articles 20 [])"
  by (simp add: model_defs sample_defs)

text \<open>
  C1, as the code has it.  There is no generation check: the reply to a status request is
  handled in the same way whether or not a newer query has replaced the displayed list in
  the meantime.  A task with status \<^verbatim>\<open>completed\<close> has its articles merged into the list
  displayed at that moment (those with an identifier not yet displayed are appended, no
  displayed item is removed or moved); a task with any other status and a failed request
  leave the displayed list unchanged.
\<close>

theorem status_reply_merges_into_current_list:
  assumes "i < length (invs w)" and "pc (invs w ! i) = AwaitStatus q imm taskId"
  shows "newsList (ui (react (StatusReply i reply) w))
       = (case getSearchStatus taskId reply of
            Inl err \<Rightarrow> newsList (ui w)
          | Inr task \<Rightarrow>
              if status task = Completed then mergeArticles (newsList (ui w)) (articles task)
              else newsList (ui w))"
  using assms
  by (auto simp: resume_def afterStatus_def poll_def Let_def counted_def onProgress_def
      onFinalResults_def finishSmartSearch_def mergeArticles_def split: sum.splits)

theorem status_reply_merges_into_current_list_witness:
  "2 < length (invs (run superseding (mounted [])))
   \<and> pc (invs (run superseding (mounted [])) ! 2) = AwaitStatus ''q3'' (first_page [article ''C'' []] (Some ''T3'')) ''T3''
   \<and> newsList (ui (react (StatusReply 2 (ok (report ''T3'' Completed 100 [article ''D'' ''old'', article ''Y'' []])))
        (run superseding (mounted [])))) = [article ''D'' [], article ''Y'' []]
   \<and> newsList (ui (react (StatusReply 2 (ok (report ''T3'' Error 100 [article ''Y'' []])))
        (run superseding (mounted [])))) = [article ''D'' []]
   \<and> newsList (ui (react (StatusReply 2 not_found) (run superseding (mounted [])))) = [article ''D'' []]"
proof -
  let ?w = "run superseding (mounted [])"
  have h1: "2 < length (invs ?w)"
    by (simp add: model_defs sample_defs)
  have h2: "pc (invs ?w ! 2) = AwaitStatus ''q3'' (first_page [article ''C'' []] (Some ''T3'')) ''T3''"
    by (simp add: model_defs sample_defs)
  have l: "newsList (ui ?w) = [article ''D'' []]"
    by (simp add: model_defs sample_defs)
  show ?thesis
    using h1 h2 l
      status_reply_merges_into_current_list [OF h1 h2,
        of "ok (report ''T3'' Completed 100 [article ''D'' ''old'', article ''Y'' []])"]
      status_reply_merges_into_current_list [OF h1 h2, of "ok (report ''T3'' Error 100 [article ''Y'' []])"]
      status_reply_merges_into_current_list [OF h1 h2, of not_found]
    by (simp add: model_defs article_def report_def ok_def not_found_def)
qed

text \<open>
  C1 as stated fails.  Query \<open>q3\<close> is displayed (list \<open>[C]\<close>, task \<open>T3\<close>), its poll is in
  flight and the form accepts input.  Query \<open>q4\<close> is submitted and its immediate wave
  displays \<open>[D]\<close>.  The poll of \<open>q3\<close> then fetches its terminal status \<^verbatim>\<open>completed\<close> with
  article \<open>Y\<close>, and the list displayed for \<open>q4\<close> becomes \<open>[D, Y]\<close>.
\<close>

theorem stale_completion_alters_newer_list:
  "currentSearchQuery (ui (run overlapping (mounted []))) = ''q3''
   \<and> newsList (ui (run overlapping (mounted []))) = [article ''C'' []]
   \<and> pc (invs (run overlapping (mounted [])) ! 2)
       = AwaitStatus ''q3'' (first_page [article ''C'' []] (Some ''T3'')) ''T3''
   \<and> \<not> isSearching (ui (run overlapping (mounted [])))
   \<and> currentSearchQuery (ui (run superseding (mounted []))) = ''q4''
   \<and> newsList (ui (run superseding (mounted []))) = [article ''D'' []]
   \<and> newsList (ui (run (superseding @ [StatusReply 2 (ok (report ''T3'' Completed 100 [article ''Y'' []]))])
        (mounted []))) = [article ''D'' [], article ''Y'' []]
   \<and> newsList (ui (run (superseding @ [StatusReply 2 (ok (report ''T3'' Completed 100 [article ''Y'' []]))])
        (mounted []))) \<noteq> newsList (ui (run superseding (mounted [])))"
  by (simp add: model_defs sample_defs)

section \<open>Failed cancellation\<close>

text \<open>
  C9, as the code has it.  When the cancellation of the previous task, requested on the
  submission of a new query, fails, the failure is logged and the search goes on exactly
  as after a successful cancellation: the same invocations and the same state, only the
  console line differs.  When the cancellation requested by the user's cancel action
  fails, the failure is logged and the state stays as it was: the task id and the progress
  display are cleared only by a cancellation that succeeds.
\<close>

theorem failed_cancel_is_logged:
  assumes "i < length (invs w)"
  shows "(pc (invs w ! i) = AwaitCancelOld q oldId
          \<and> cancelSearchTask oldId failing = Inl err \<and> cancelSearchTask oldId succeeding = Inr m
          \<longrightarrow> invs (react (CancelReply i failing) w) = invs (react (CancelReply i succeeding) w)
              \<and> (ui (react (CancelReply i failing) w))\<lparr>console := []\<rparr>
                  = (ui (react (CancelReply i succeeding) w))\<lparr>console := []\<rparr>
              \<and> console (ui (react (CancelReply i failing) w))
                  = console (ui w) @ [ErrorCancelOldFailed err, LogSmartSearchStart q])
       \<and> (pc (invs w ! i) = AwaitCancel taskId \<and> cancelSearchTask taskId failing = Inl err
          \<longrightarrow> react (CancelReply i failing) w
                = \<lparr>ui = (ui w)\<lparr>console := console (ui w) @ [ErrorCancelFailed err]\<rparr>,
                   invs = (invs w)[i := (invs w ! i)\<lparr>pc := Done\<rparr>]\<rparr>)"
  using assms
  by (auto simp: resume_def afterCancel_def startSmartSearch_def)

theorem failed_cancel_is_logged_witness:
  "1 < length (invs (run (finished_first @ [Submit ''q2'']) (mounted [])))
   \<and> pc (invs (run (finished_first @ [Submit ''q2'']) (mounted [])) ! 1) = AwaitCancelOld ''q2'' ''T1''
   \<and> cancelSearchTask ''T1'' not_found = Inl (CancelTaskFailed ''NOT FOUND'')
   \<and> cancelSearchTask ''T1'' (ok ''cancelled'') = Inr ''cancelled''
   \<and> invs (react (CancelReply 1 not_found) (run (finished_first @ [Submit ''q2'']) (mounted [])))
       = invs (react (CancelReply 1 (ok ''cancelled'')) (run (finished_first @ [Submit ''q2'']) (mounted [])))
   \<and> (ui (react (CancelReply 1 not_found) (run (finished_first @ [Submit ''q2'']) (mounted []))))\<lparr>console := []\<rparr>
       = (ui (react (CancelReply 1 (ok ''cancelled'')) (run (finished_first @ [Submit ''q2'']) (mounted []))))\<lparr>console := []\<rparr>
   \<and> 1 < length (invs (run cancelling (mounted [])))
   \<and> pc (invs (run cancelling (mounted [])) ! 1) = AwaitCancel ''T1''
   \<and> ui (react (CancelReply 1 not_found) (run cancelling (mounted [])))
       = (ui (run cancelling (mounted [])))\<lparr>console := console (ui (run cancelling (mounted [])))
            @ [ErrorCancelFailed (CancelTaskFailed ''NOT FOUND'')]\<rparr>"
proof -
  let ?w = "run (finished_first @ [Submit ''q2'']) (mounted [])"
  let ?c = "run cancelling (mounted [])"
  have h1: "1 < length (invs ?w)"
    by (simp add: model_defs sample_defs)
  have h2: "pc (invs ?w ! 1) = AwaitCancelOld ''q2'' ''T1''"
    by (simp add: model_defs sample_defs)
  have h3: "cancelSearchTask ''T1'' not_found = Inl (CancelTaskFailed ''NOT FOUND'')"
    by (simp add: model_defs sample_defs)
  have h4: "cancelSearchTask ''T1'' (ok ''cancelled'') = Inr ''cancelled''"
    by (simp add: model_defs sample_defs)
  have k1: "1 < length (invs ?c)"
    by (simp add: model_defs sample_defs)
  have k2: "pc (invs ?c ! 1) = AwaitCancel ''T1''"
    by (simp add: model_defs sample_defs)
  show ?thesis
    using h1 h2 h3 h4 k1 k2
      failed_cancel_is_logged [OF h1, of "''q2''" "''T1''" not_found "CancelTaskFailed ''NOT FOUND''"
        "ok ''cancelled''" "''cancelled''"]
      failed_cancel_is_logged [OF k1, of _ _ not_found "CancelTaskFailed ''NOT FOUND''" _ _ "''T1''"]
    by simp
qed

text \<open>
  C9 as stated fails for the user's cancel action.  A search is polling task \<open>T1\<close> and the
  cancel button is clicked.  When the cancellation succeeds, the task id and the progress
  display are cleared; when it fails, both stay.
\<close>

theorem failed_user_cancel_keeps_task:
  "backgroundTaskId (ui (run (cancelling @ [CancelReply 1 (ok ''cancelled'')]) (mounted []))) = None
   \<and> currentSearchTask (ui (run (cancelling @ [CancelReply 1 (ok ''cancelled'')]) (mounted []))) = None
   \<and> backgroundTaskId (ui (run (cancelling @ [CancelReply 1 not_found]) (mounted []))) = Some ''T1''
   \<and> currentSearchTask (ui (run (cancelling @ [CancelReply 1 not_found]) (mounted [])))
       = Some (report ''T1'' Fetching_articles 20 [])
   \<and> backgroundTaskId (ui (run (cancelling @ [CancelReply 1 not_found]) (mounted [])))
       \<noteq> backgroundTaskId (ui (run (cancelling @ [CancelReply 1 (ok ''cancelled'')]) (mounted [])))"
  by (simp add: model_defs sample_defs)

end
